theory Spec2Isabelle
  imports Main
begin

section \<open>Strings\<close>

text \<open>
  Python strings are modelled as \<^typ>\<open>string\<close>; the model covers ASCII text.
  \<open>str.lower()\<close> maps the letters A to Z to a to z and leaves every other
  character alone; \<open>str.strip()\<close> removes the white space of both ends, where
  white space is what \<open>str.isspace()\<close> accepts in the ASCII range (tab, line
  feed, vertical tab, form feed, carriage return, the four separators
  0x1C to 0x1F, and the blank).
\<close>

definition ascii_upper :: string where
  "ascii_upper = ''ABCDEFGHIJKLMNOPQRSTUVWXYZ''"

definition ascii_lower :: string where
  "ascii_lower = ''abcdefghijklmnopqrstuvwxyz''"

definition lower_char :: "char \<Rightarrow> char" where
  "lower_char c = (case map_of (zip ascii_upper ascii_lower) c of Some d \<Rightarrow> d | None \<Rightarrow> c)"

definition lower :: "string \<Rightarrow> string" where
  "lower s = map lower_char s"

definition is_space :: "char \<Rightarrow> bool" where
  "is_space c = (c \<in> set [CHR 0x09, CHR 0x0A, CHR 0x0B, CHR 0x0C, CHR 0x0D,
                           CHR 0x1C, CHR 0x1D, CHR 0x1E, CHR 0x1F, CHR 0x20])"

definition strip :: "string \<Rightarrow> string" where
  "strip s = rev (dropWhile is_space (rev (dropWhile is_space s)))"

text \<open>The dictionary key of \<open>find_column\<close>: \<open>s.lower().strip()\<close>.\<close>

definition norm_key :: "string \<Rightarrow> string" where
  "norm_key s = strip (lower s)"

section \<open>The column resolver\<close>

text \<open>
  \<^verbatim>\<open>lookup = {col.lower().strip(): col for col in columns}\<close>: the comprehension
  stores the columns from left to right, so a later column replaces an earlier one
  with the same key.
\<close>

definition store :: "string \<Rightarrow> (string \<rightharpoonup> string) \<Rightarrow> (string \<rightharpoonup> string)" where
  "store col m = m(norm_key col \<mapsto> col)"

definition build_lookup :: "string list \<Rightarrow> (string \<rightharpoonup> string)" where
  "build_lookup cols = fold store cols Map.empty"

text \<open>The loop over the candidates: the first candidate whose key is stored wins.\<close>

fun find_in :: "(string \<rightharpoonup> string) \<Rightarrow> string list \<Rightarrow> string option" where
  "find_in lookup [] = None"
| "find_in lookup (cand # cands) =
     (case lookup (norm_key cand) of
        Some col \<Rightarrow> Some col
      | None \<Rightarrow> find_in lookup cands)"

definition find_column :: "string list \<Rightarrow> string list \<Rightarrow> string option" where
  "find_column cols cands = find_in (build_lookup cols) cands"

text \<open>
  The resolver as the specification words it: the first header, in header order,
  that equals some candidate once both are lower-cased and trimmed.
\<close>

definition spec_find_column :: "string list \<Rightarrow> string list \<Rightarrow> string option" where
  "spec_find_column cols cands =
     List.find (\<lambda>h. \<exists>c \<in> set cands. norm_key h = norm_key c) cols"

section \<open>Paths\<close>

text \<open>
  A \<open>pathlib.Path\<close> of the POSIX flavour: the root (\<open>''''\<close>, \<open>/\<close>, or \<open>//\<close>
  when the text starts with exactly two slashes) and the components. The
  constructor drops empty components and the components \<open>.\<close>; it keeps
  \<open>..\<close> as it stands.
\<close>

record path =
  root :: string
  parts :: "string list"

text \<open>\<open>s.split('/')\<close>\<close>

fun split_sep :: "string \<Rightarrow> string list" where
  "split_sep [] = [[]]"
| "split_sep (c # cs) =
     (if c = CHR ''/'' then [] # split_sep cs
      else (case split_sep cs of
              p # ps \<Rightarrow> (c # p) # ps
            | [] \<Rightarrow> [[c]]))"

text \<open>\<open>'/'.join(ps)\<close>\<close>

fun join_sep :: "string list \<Rightarrow> string" where
  "join_sep [] = []"
| "join_sep [p] = p"
| "join_sep (p # q # ps) = p @ CHR ''/'' # join_sep (q # ps)"

definition parse_root :: "string \<Rightarrow> string" where
  "parse_root s =
     (if take 2 s = ''//'' \<and> take 3 s \<noteq> ''///'' then ''//''
      else if take 1 s = ''/'' then ''/''
      else [])"

definition parse_path :: "string \<Rightarrow> path" where
  "parse_path s =
     \<lparr>root = parse_root s,
      parts = filter (\<lambda>p. p \<noteq> [] \<and> p \<noteq> ''.'') (split_sep s)\<rparr>"

definition str_path :: "path \<Rightarrow> string" where
  "str_path p =
     (if root p = [] \<and> parts p = [] then ''.'' else root p @ join_sep (parts p))"

definition is_absolute :: "path \<Rightarrow> bool" where
  "is_absolute p = (root p \<noteq> [])"

text \<open>\<open>base_dir / value\<close>: an absolute right operand replaces the left one.\<close>

definition joinpath :: "path \<Rightarrow> path \<Rightarrow> path" where
  "joinpath base p =
     (if is_absolute p then p else \<lparr>root = root base, parts = parts base @ parts p\<rparr>)"

text \<open>
  \<open>Path.resolve()\<close> asks the file system: it makes the path absolute against
  the working directory, follows symbolic links and removes \<open>..\<close>. The model
  takes it as the parameter \<open>resolve\<close> of \<open>resolve_path\<close>. The function
  \<open>resolve_nolinks\<close> is \<open>resolve()\<close> on a file system without symbolic links,
  with working directory \<open>cwd\<close>: there \<open>..\<close> removes the component before
  it, and stays at the root when there is none.
\<close>

fun collapse :: "string list \<Rightarrow> string list \<Rightarrow> string list" where
  "collapse acc [] = rev acc"
| "collapse acc (p # ps) =
     (if p = ''..'' then collapse (tl acc) ps else collapse (p # acc) ps)"

definition resolve_nolinks :: "path \<Rightarrow> path \<Rightarrow> path" where
  "resolve_nolinks cwd p =
     (let q = joinpath cwd p in \<lparr>root = root q, parts = collapse [] (parts q)\<rparr>)"

text \<open>
  \<^verbatim>\<open>
  def resolve_path(base_dir, value):
      value = value.strip()
      if not value:
          return ""
      path = Path(value)
      if not path.is_absolute():
          path = (base_dir / value).resolve()
      return str(path)
  \<close>
\<close>

definition resolve_path :: "(path \<Rightarrow> path) \<Rightarrow> path \<Rightarrow> string \<Rightarrow> string" where
  "resolve_path resolve base_dir value =
     (let value = strip value in
      if value = [] then []
      else
        let path = parse_path value;
            path = (if \<not> is_absolute path then resolve (joinpath base_dir (parse_path value))
                    else path)
        in str_path path)"

section \<open>Tables\<close>

text \<open>
  A cell of a \<open>pandas\<close> table read from a CSV file is missing (\<open>NaN\<close>), a
  number or a text. A row maps column names to cells; a table is the list of its
  column names and the list of its rows, in file order. What a row says outside
  the table's columns is never read.
\<close>

datatype 'v cell = NA | Num 'v | Str string

type_synonym 'v row = "string \<Rightarrow> 'v cell"

record 'v frame =
  columns :: "string list"
  rows :: "'v row list"

datatype error = FileNotFoundError | ValueError string | KeyError string

text \<open>\<open>df.empty\<close>: one of the two axes has length zero.\<close>

definition empty :: "'v frame \<Rightarrow> bool" where
  "empty df = (columns df = [] \<or> rows df = [])"

text \<open>\<open>pd.notna(x)\<close> and \<open>str(x)\<close>; \<open>shw\<close> writes a number.\<close>

definition notna :: "'v cell \<Rightarrow> bool" where
  "notna c = (c \<noteq> NA)"

fun str_cell :: "('v \<Rightarrow> string) \<Rightarrow> 'v cell \<Rightarrow> string" where
  "str_cell shw NA = ''nan''"
| "str_cell shw (Num v) = shw v"
| "str_cell shw (Str s) = s"

text \<open>The truth value of an \<open>Optional[str]\<close>: \<open>None\<close> and \<open>""\<close> are false.\<close>

fun truthy :: "string option \<Rightarrow> bool" where
  "truthy None = False"
| "truthy (Some s) = (s \<noteq> [])"

text \<open>A natural number in decimal, as an f-string writes it.\<close>

definition digit_char :: "nat \<Rightarrow> char" where
  "digit_char n = ''0123456789'' ! n"

fun str_nat :: "nat \<Rightarrow> string" where
  "str_nat n = (if n < 10 then [digit_char n] else str_nat (n div 10) @ [digit_char (n mod 10)])"

section \<open>The standardiser\<close>

definition prompt_candidates :: "string list" where
  "prompt_candidates = [''prompt'', ''t2i prompt'', ''text'', ''text_prompt'']"

definition editing_candidates :: "string list" where
  "editing_candidates = [''editing_prompt'', ''i2i prompt'', ''instruction'']"

definition step0_candidates :: "string list" where
  "step0_candidates = [''step0'', ''step0_path'', ''base'', ''base_path'']"

definition step_candidates :: "nat \<Rightarrow> string list" where
  "step_candidates idx =
     [''step'' @ str_nat idx, ''step'' @ str_nat idx @ ''_path'',
      ''edit_'' @ str_nat idx, ''edit_'' @ str_nat idx @ ''_path'',
      ''edit'' @ str_nat idx, ''edit'' @ str_nat idx @ ''_path'']"

text \<open>
  The dictionary \<open>step_columns\<close>, as the list of its entries in the order the
  code stores them: step 0 first, then the steps 1 to 9. No key is stored twice.
\<close>

definition detect_step0 :: "string list \<Rightarrow> (nat \<times> string) list" where
  "detect_step0 cols =
     (let step0_col = find_column cols step0_candidates
      in if truthy step0_col then [(0, the step0_col)] else [])"

fun detect_steps :: "string list \<Rightarrow> nat list \<Rightarrow> (nat \<times> string) list" where
  "detect_steps cols [] = []"
| "detect_steps cols (idx # idxs) =
     (let col = find_column cols (step_candidates idx)
      in (if truthy col then [(idx, the col)] else []) @ detect_steps cols idxs)"

definition step_columns :: "string list \<Rightarrow> (nat \<times> string) list" where
  "step_columns cols = detect_step0 cols @ detect_steps cols [1..<10]"

text \<open>\<open>max(step_columns)\<close>, the largest key of a dictionary that is not empty.\<close>

definition max_key :: "(nat \<times> string) list \<Rightarrow> nat" where
  "max_key d = fold max (map fst d) 0"

definition step_field :: "nat \<Rightarrow> string" where
  "step_field idx = ''step'' @ str_nat idx @ ''_path''"

definition fieldnames :: "nat \<Rightarrow> string list" where
  "fieldnames max_step = [''prompt'', ''editing_prompt''] @ map step_field [0..<max_step + 1]"

text \<open>The dictionary \<open>record\<close> of one row, and the line \<open>DictWriter\<close> writes for it.\<close>

definition make_record ::
  "(path \<Rightarrow> path) \<Rightarrow> ('v \<Rightarrow> string) \<Rightarrow> path \<Rightarrow> string \<Rightarrow> string option \<Rightarrow>
     (nat \<times> string) list \<Rightarrow> nat \<Rightarrow> 'v row \<Rightarrow> (string \<times> string) list" where
  "make_record resolve shw model_dir prompt_col editing_col step_cols max_step row =
     [(''prompt'', strip (str_cell shw (row prompt_col))),
      (''editing_prompt'',
         if truthy editing_col \<and> notna (row (the editing_col))
         then strip (str_cell shw (row (the editing_col))) else [])]
     @ map (\<lambda>idx.
              (step_field idx,
               let src_col = map_of step_cols idx
               in if truthy src_col \<and> notna (row (the src_col))
                  then resolve_path resolve model_dir (str_cell shw (row (the src_col)))
                  else []))
           [0..<max_step + 1]"

definition writerow :: "string list \<Rightarrow> (string \<times> string) list \<Rightarrow> string list" where
  "writerow keys record = map (\<lambda>key. case map_of record key of Some v \<Rightarrow> v | None \<Rightarrow> []) keys"

record csv_file =
  header :: "string list"
  body :: "string list list"

text \<open>
  \<open>standardise_model_csv\<close>. The source file is \<open>None\<close> when
  \<open>prompt-img-path.csv\<close> does not exist, and otherwise the table
  \<open>pd.read_csv\<close> reads from it. The result is the error raised, or the value
  returned together with the file written.
\<close>

definition standardise_model_csv ::
  "(path \<Rightarrow> path) \<Rightarrow> ('v \<Rightarrow> string) \<Rightarrow> path \<Rightarrow> 'v frame option \<Rightarrow> error + (nat \<times> csv_file)" where
  "standardise_model_csv resolve shw model_dir source =
     (case source of
        None \<Rightarrow> Inl FileNotFoundError
      | Some df \<Rightarrow>
          if empty df then Inl (ValueError ''No rows found'')
          else
            let prompt_col = find_column (columns df) prompt_candidates;
                editing_col = find_column (columns df) editing_candidates
            in if \<not> truthy prompt_col then Inl (ValueError ''Unable to locate prompt column'')
               else
                 let step_cols = step_columns (columns df)
                 in if step_cols = [] then Inl (ValueError ''No step columns found'')
                    else
                      let max_step = max_key step_cols;
                          keys = fieldnames max_step
                      in Inr (max_step,
                              \<lparr>header = keys,
                               body = map (\<lambda>row. writerow keys
                                             (make_record resolve shw model_dir (the prompt_col)
                                                editing_col step_cols max_step row))
                                          (rows df)\<rparr>))"

text \<open>
  The source column of a step, read off the detection loop: step 0 has its own
  candidates, the steps 1 to 9 have theirs, and no later step is looked for.
\<close>

definition step_source :: "string list \<Rightarrow> nat \<Rightarrow> string option" where
  "step_source cols idx =
     (if idx = 0 then find_column cols step0_candidates
      else if idx < 10 then find_column cols (step_candidates idx)
      else None)"

text \<open>The cells of one output line after the two prompts: empty when the step has no
  source column or the cell is missing, the resolved path otherwise; and the cell of
  the editing prompt.\<close>

definition step_cell ::
  "(path \<Rightarrow> path) \<Rightarrow> ('v \<Rightarrow> string) \<Rightarrow> path \<Rightarrow> string option \<Rightarrow> 'v row \<Rightarrow> string" where
  "step_cell resolve shw model_dir src_col row =
     (case src_col of
        None \<Rightarrow> []
      | Some c \<Rightarrow> if row c = NA then [] else resolve_path resolve model_dir (str_cell shw (row c)))"

definition editing_cell :: "('v \<Rightarrow> string) \<Rightarrow> string option \<Rightarrow> 'v row \<Rightarrow> string" where
  "editing_cell shw editing_col row =
     (case editing_col of
        None \<Rightarrow> []
      | Some c \<Rightarrow> if row c = NA then [] else strip (str_cell shw (row c)))"

section \<open>The best/worst summariser\<close>

text \<open>
  Numbers are values of a linear order (the floats without \<open>NaN\<close>); a missing
  number is the cell \<open>NA\<close>. \<open>pd.to_numeric(\<dots>, errors='coerce')\<close> keeps a
  number, reads a text with \<open>num\<close>, which says which texts are numbers, and
  makes every other cell missing.
\<close>

definition to_numeric :: "(string \<Rightarrow> 'v option) \<Rightarrow> 'v cell \<Rightarrow> 'v cell" where
  "to_numeric num c =
     (case c of
        Str s \<Rightarrow> (case num s of Some v \<Rightarrow> Num v | None \<Rightarrow> NA)
      | _ \<Rightarrow> c)"

text \<open>\<^verbatim>\<open>df[col] = pd.to_numeric(df[col], errors='coerce')\<close>; \<open>df[col]\<close> raises
  \<open>KeyError\<close> when the table has no such column.\<close>

definition coerce_column ::
  "(string \<Rightarrow> 'v option) \<Rightarrow> string \<Rightarrow> 'v frame \<Rightarrow> error + 'v frame" where
  "coerce_column num col df =
     (if col \<in> set (columns df)
      then Inr (df\<lparr>rows := map (\<lambda>r. r(col := to_numeric num (r col))) (rows df)\<rparr>)
      else Inl (KeyError col))"

fun coerce_columns ::
  "(string \<Rightarrow> 'v option) \<Rightarrow> string list \<Rightarrow> 'v frame \<Rightarrow> error + 'v frame" where
  "coerce_columns num [] df = Inr df"
| "coerce_columns num (col # cols) df =
     (case coerce_column num col df of
        Inl e \<Rightarrow> Inl e
      | Inr df' \<Rightarrow> coerce_columns num cols df')"

definition numeric_cols :: "string list" where
  "numeric_cols = [''accuracy'', ''precision'', ''recall'', ''f1'']"

text \<open>
  \<^verbatim>\<open>df['num_questions'] = pd.to_numeric(df.get('num_questions'), errors='coerce')\<close>:
  \<open>df.get\<close> gives \<open>None\<close> for a column the table lacks, \<open>to_numeric\<close> makes
  \<open>NaN\<close> of it, and the assignment adds the column with that value in every row.
\<close>

definition coerce_num_questions :: "(string \<Rightarrow> 'v option) \<Rightarrow> 'v frame \<Rightarrow> 'v frame" where
  "coerce_num_questions num df =
     (if ''num_questions'' \<in> set (columns df)
      then df\<lparr>rows := map (\<lambda>r. r(''num_questions'' := to_numeric num (r ''num_questions'')))
                         (rows df)\<rparr>
      else df\<lparr>columns := columns df @ [''num_questions''],
              rows := map (\<lambda>r. r(''num_questions'' := NA)) (rows df)\<rparr>)"

text \<open>
  \<open>df.groupby('group_id')\<close>: the keys are the values of the column that are not
  missing, each once, here in the order of their first rows. \<open>pandas\<close> lists
  them in sorted order: the order of the groups, and so of the records written, is
  not modelled.
\<close>

definition group_keys :: "'v frame \<Rightarrow> 'v cell list" where
  "group_keys df = rev (remdups (rev (filter notna (map (\<lambda>r. r ''group_id'') (rows df)))))"

text \<open>
  \<open>idxmax\<close> and \<open>idxmin\<close> of the column \<open>f1\<close> within a group: the rows are
  read in table order, rows of other groups and rows with a missing \<open>f1\<close> are
  skipped, and the label kept changes only for a strictly better value, so the
  first row with the extreme value wins. The result is \<open>None\<close> (\<open>NaN\<close>) for a
  group without any value. Labels are row positions, as \<open>read_csv\<close> assigns them.
\<close>

definition idx_step ::
  "('v \<Rightarrow> 'v \<Rightarrow> bool) \<Rightarrow> 'v cell \<Rightarrow> 'v row \<Rightarrow> nat \<Rightarrow> (nat \<times> 'v) option \<Rightarrow> (nat \<times> 'v) option" where
  "idx_step better g r i acc =
     (if r ''group_id'' = g then
        (case r ''f1'' of
           Num v \<Rightarrow>
             (case acc of
                None \<Rightarrow> Some (i, v)
              | Some (j, w) \<Rightarrow> if better v w then Some (i, v) else acc)
         | _ \<Rightarrow> acc)
      else acc)"

primrec idx_scan ::
  "('v \<Rightarrow> 'v \<Rightarrow> bool) \<Rightarrow> 'v cell \<Rightarrow> 'v row list \<Rightarrow> nat \<Rightarrow> (nat \<times> 'v) option \<Rightarrow> (nat \<times> 'v) option" where
  "idx_scan better g [] i acc = acc"
| "idx_scan better g (r # rs) i acc = idx_scan better g rs (Suc i) (idx_step better g r i acc)"

definition idxmax :: "('v::linorder) frame \<Rightarrow> 'v cell \<Rightarrow> nat option" where
  "idxmax df g = map_option fst (idx_scan (\<lambda>v w. w < v) g (rows df) 0 None)"

definition idxmin :: "('v::linorder) frame \<Rightarrow> 'v cell \<Rightarrow> nat option" where
  "idxmin df g = map_option fst (idx_scan (\<lambda>v w. v < w) g (rows df) 0 None)"

text \<open>\<open>.dropna()\<close> on the labels found for the groups.\<close>

definition dropna :: "nat option list \<Rightarrow> nat list" where
  "dropna idxs = List.map_filter (\<lambda>i. i) idxs"

text \<open>\<open>df.loc[labels]\<close>: the rows with these labels; a label the table lacks raises.\<close>

definition loc :: "'v frame \<Rightarrow> nat list \<Rightarrow> error + 'v frame" where
  "loc df idxs =
     (if \<forall>i\<in>set idxs. i < length (rows df)
      then Inr (df\<lparr>rows := map (\<lambda>i. rows df ! i) idxs\<rparr>)
      else Inl (KeyError ''index''))"

text \<open>\<open>add_prefix\<close> renames every column.\<close>

definition prefix_row :: "string \<Rightarrow> 'v row \<Rightarrow> 'v row" where
  "prefix_row p r = (\<lambda>k. if take (length p) k = p then r (drop (length p) k) else NA)"

definition add_prefix :: "string \<Rightarrow> 'v frame \<Rightarrow> 'v frame" where
  "add_prefix p df =
     \<lparr>columns = map (\<lambda>c. p @ c) (columns df), rows = map (prefix_row p) (rows df)\<rparr>"

text \<open>
  \<open>left.merge(right, left_on=lk, right_on=rk, how='outer')\<close>: every pair of a
  left and a right row with equal keys, then the left rows without a partner and
  the right rows without a partner, padded with missing cells.
\<close>

definition join_row :: "string list \<Rightarrow> 'v row \<Rightarrow> 'v row \<Rightarrow> 'v row" where
  "join_row lcols l r = (\<lambda>k. if k \<in> set lcols then l k else r k)"

definition merge_outer :: "'v frame \<Rightarrow> 'v frame \<Rightarrow> string \<Rightarrow> string \<Rightarrow> 'v frame" where
  "merge_outer left right lk rk =
     \<lparr>columns = columns left @ columns right,
      rows =
        concat (map (\<lambda>l. map (join_row (columns left) l)
                            (filter (\<lambda>r. r rk = l lk) (rows right)))
                    (rows left))
        @ map (\<lambda>l. join_row (columns left) l (\<lambda>_. NA))
              (filter (\<lambda>l. \<not> (\<exists>r\<in>set (rows right). r rk = l lk)) (rows left))
        @ map (\<lambda>r. join_row (columns left) (\<lambda>_. NA) r)
              (filter (\<lambda>r. \<not> (\<exists>l\<in>set (rows left). r rk = l lk)) (rows right))\<rparr>"

definition rename_column :: "string \<Rightarrow> string \<Rightarrow> 'v frame \<Rightarrow> 'v frame" where
  "rename_column old new df =
     (if old \<in> set (columns df)
      then \<lparr>columns = map (\<lambda>c. if c = old then new else c) (columns df),
            rows = map (\<lambda>r. (r(new := r old))(old := NA)) (rows df)\<rparr>
      else df)"

definition drop_column :: "string \<Rightarrow> 'v frame \<Rightarrow> 'v frame" where
  "drop_column c df =
     \<lparr>columns = filter (\<lambda>x. x \<noteq> c) (columns df), rows = map (\<lambda>r. r(c := NA)) (rows df)\<rparr>"

text \<open>
  \<open>summarize_best_worst\<close>, on the table read from the summary file. The result
  is the error raised, \<open>None\<close> when the function returns without writing, or
  the table written.
\<close>

definition summarize_best_worst ::
  "(string \<Rightarrow> 'v option) \<Rightarrow> ('v::linorder) frame \<Rightarrow> error + 'v frame option" where
  "summarize_best_worst num df =
     (if empty df \<or> ''group_id'' \<notin> set (columns df) then Inr None
      else
        case coerce_columns num numeric_cols df of
          Inl e \<Rightarrow> Inl e
        | Inr df1 \<Rightarrow>
            let df2 = coerce_num_questions num df1;
                best_idx = dropna (map (idxmax df2) (group_keys df2));
                worst_idx = dropna (map (idxmin df2) (group_keys df2))
            in case loc df2 best_idx of
                 Inl e \<Rightarrow> Inl e
               | Inr best \<Rightarrow>
                   (case loc df2 worst_idx of
                      Inl e \<Rightarrow> Inl e
                    | Inr worst \<Rightarrow>
                        let best = add_prefix ''best_'' best;
                            worst = add_prefix ''worst_'' worst;
                            combined = merge_outer best worst ''best_group_id'' ''worst_group_id'';
                            combined = rename_column ''best_group_id'' ''group_id'' combined;
                            combined = (if ''worst_group_id'' \<in> set (columns combined)
                                        then drop_column ''worst_group_id'' combined
                                        else combined)
                        in Inr (Some combined)))"

section \<open>Notions used in the statements\<close>

text \<open>Row \<open>k\<close> of \<open>rs\<close> belongs to the group \<open>g\<close> and its \<open>f1\<close> is the number \<open>v\<close>.\<close>

definition has_value :: "'v row list \<Rightarrow> 'v cell \<Rightarrow> nat \<Rightarrow> 'v \<Rightarrow> bool" where
  "has_value rs g k v = (k < length rs \<and> (rs ! k) ''group_id'' = g \<and> (rs ! k) ''f1'' = Num v)"

text \<open>
  A row of the table the groups are formed on: the four metric columns and
  \<open>num_questions\<close> went through \<open>to_numeric\<close>, and \<open>num_questions\<close> is
  missing when the table read has no such column.
\<close>

definition coerced_row :: "(string \<Rightarrow> 'v option) \<Rightarrow> string list \<Rightarrow> 'v row \<Rightarrow> 'v row" where
  "coerced_row num cols r =
     (\<lambda>c. if c = ''num_questions''
          then (if ''num_questions'' \<in> set cols then to_numeric num (r c) else NA)
          else if c \<in> set numeric_cols then to_numeric num (r c) else r c)"

text \<open>
  The record written for a group whose best row is \<open>b\<close> and whose worst row is
  \<open>w\<close>: the two rows prefixed and joined, \<open>best_group_id\<close> renamed and
  \<open>worst_group_id\<close> dropped.
\<close>

definition joined_record :: "string list \<Rightarrow> 'v row \<Rightarrow> 'v row \<Rightarrow> 'v row" where
  "joined_record cols b w =
     (let j = join_row (map (\<lambda>c. ''best_'' @ c) cols) (prefix_row ''best_'' b)
                (prefix_row ''worst_'' w)
      in ((j(''group_id'' := j ''best_group_id''))(''best_group_id'' := NA))
           (''worst_group_id'' := NA))"

section \<open>The cultural metrics of the driver\<close>

text \<open>
  The loop of \<open>main\<close> over the models, under \<open>if not args.skip_cultural\<close>.
  What the loop reads of a model: whether its \<open>cultural_metrics_\<dots>_summary.csv\<close>
  exists already, whether the cultural scorer exits with status zero, and the summary
  table the scorer leaves. What it does is recorded as events: the model is
  skipped, the scorer is run, the summariser is called and gives a result.
\<close>

record 'v model_run =
  name :: string
  cached :: bool
  scorer_ok :: bool
  summary :: "'v frame"

datatype 'v event =
    Skip string
  | Score string
  | Summarize string "error + 'v frame option"

datatype failure = CalledProcessError | Raised error

text \<open>
  The body of the loop, with the failure that ends the run, if any:
  \<^verbatim>\<open>
  if cultural_summary.exists() and not args.force:
      continue
  run_cultural_metric(...)       # subprocess.run(cmd, check=True)
  summarize_best_worst(cultural_summary, cultural_best_worst)
  \<close>
\<close>

definition cultural_step ::
  "(string \<Rightarrow> 'v option) \<Rightarrow> bool \<Rightarrow> ('v::linorder) model_run \<Rightarrow> 'v event list \<times> failure option" where
  "cultural_step num force m =
     (if cached m \<and> \<not> force then ([Skip (name m)], None)
      else if \<not> scorer_ok m then ([Score (name m)], Some CalledProcessError)
      else
        case summarize_best_worst num (summary m) of
          Inl e \<Rightarrow> ([Score (name m), Summarize (name m) (Inl e)], Some (Raised e))
        | Inr out \<Rightarrow> ([Score (name m), Summarize (name m) (Inr out)], None))"

fun cultural_loop ::
  "(string \<Rightarrow> 'v option) \<Rightarrow> bool \<Rightarrow> ('v::linorder) model_run list \<Rightarrow> 'v event list \<times> failure option" where
  "cultural_loop num force [] = ([], None)"
| "cultural_loop num force (m # ms) =
     (case cultural_step num force m of
        (es, Some f) \<Rightarrow> (es, Some f)
      | (es, None) \<Rightarrow>
          (case cultural_loop num force ms of (es', r) \<Rightarrow> (es @ es', r)))"

definition cultural_metrics ::
  "(string \<Rightarrow> 'v option) \<Rightarrow> bool \<Rightarrow> bool \<Rightarrow> ('v::linorder) model_run list \<Rightarrow> 'v event list \<times> failure option" where
  "cultural_metrics num skip_cultural force ms =
     (if \<not> skip_cultural then cultural_loop num force ms else ([], None))"

section \<open>Example inputs\<close>

text \<open>
  Tables and paths on which the definitions are run. Numbers are natural numbers
  here, written in decimal, and the file system has no symbolic links.
\<close>

definition fs_resolve :: "path \<Rightarrow> path" where
  "fs_resolve = resolve_nolinks (parse_path ''/'')"

definition m1_dir :: path where
  "m1_dir = parse_path ''/data/m1''"

definition no_row :: "nat row" where
  "no_row = (\<lambda>_. NA)"

text \<open>A source with the headers \<open>Prompt, Edit_1, Edit_2\<close> and no base column.\<close>

definition edits_src :: "nat frame" where
  "edits_src =
     \<lparr>columns = [''Prompt'', ''Edit_1'', ''Edit_2''],
      rows = [no_row(''Prompt'' := Str ''a red kimono'', ''Edit_1'' := Str ''img/a1.png'',
                     ''Edit_2'' := Str ''/abs/a2.png''),
              no_row(''Prompt'' := Str ''a blue sari'', ''Edit_2'' := Str '' img/x/../b2.png'')]\<rparr>"

text \<open>A source whose first prompt is blank and whose second prompt is missing.\<close>

definition blank_prompt_src :: "nat frame" where
  "blank_prompt_src =
     \<lparr>columns = [''prompt'', ''step0''],
      rows = [no_row(''prompt'' := Str ''  '', ''step0'' := Str ''a.png''),
              no_row(''step0'' := Str ''b.png'')]\<rparr>"

text \<open>A source with three rows, an editing prompt, a base image and a third step.\<close>

definition three_rows_src :: "nat frame" where
  "three_rows_src =
     \<lparr>columns = [''text'', ''instruction'', ''base'', ''step3''],
      rows = [no_row(''text'' := Str ''one'', ''instruction'' := Str ''add snow'',
                     ''base'' := Str ''0.png'', ''step3'' := Str ''3.png''),
              no_row(''text'' := Str ''two'', ''base'' := Str ''0b.png''),
              no_row(''text'' := Num 3, ''step3'' := Num 7)]\<rparr>"

text \<open>Sources the standardiser refuses: no rows, no prompt column, no step column.\<close>

definition header_only_src :: "nat frame" where
  "header_only_src = \<lparr>columns = [''prompt'', ''step0''], rows = []\<rparr>"

definition no_prompt_src :: "nat frame" where
  "no_prompt_src =
     \<lparr>columns = [''caption'', ''step0''],
      rows = [no_row(''caption'' := Str ''a cat'', ''step0'' := Str ''a.png'')]\<rparr>"

definition no_step_src :: "nat frame" where
  "no_step_src =
     \<lparr>columns = [''prompt'', ''image''],
      rows = [no_row(''prompt'' := Str ''a cat'', ''image'' := Str ''a.png'')]\<rparr>"

text \<open>
  Metric tables: the groups A and B of the specification's scenario, with a row
  whose \<open>f1\<close> is a text and a group C without any \<open>f1\<close>; numbers are tenths.
  No text is a number here.
\<close>

definition no_num :: "string \<Rightarrow> nat option" where
  "no_num = (\<lambda>_. None)"

definition metric_row :: "string \<Rightarrow> nat cell \<Rightarrow> nat \<Rightarrow> nat row" where
  "metric_row g f a =
     no_row(''group_id'' := Str g, ''accuracy'' := Num a, ''precision'' := Num a,
            ''recall'' := Num a, ''f1'' := f)"

definition metrics_src :: "nat frame" where
  "metrics_src =
     \<lparr>columns = [''group_id'', ''accuracy'', ''precision'', ''recall'', ''f1''],
      rows = [metric_row ''A'' (Num 9) 1, metric_row ''A'' (Num 3) 2,
              metric_row ''B'' (Num 5) 3, metric_row ''A'' (Str ''n/a'') 4,
              metric_row ''C'' NA 5, metric_row ''A'' (Num 9) 6]\<rparr>"


definition no_precision_src :: "nat frame" where
  "no_precision_src =
     \<lparr>columns = [''group_id'', ''accuracy'', ''recall'', ''f1''],
      rows = [no_row(''group_id'' := Str ''A'', ''accuracy'' := Num 4, ''recall'' := Num 6,
                     ''f1'' := Num 5)]\<rparr>"

text \<open>Tables the summariser has nothing to do with: no row, and no \<open>group_id\<close>.\<close>

definition no_metrics_src :: "nat frame" where
  "no_metrics_src = \<lparr>columns = [''group_id'', ''f1''], rows = []\<rparr>"

definition no_group_src :: "nat frame" where
  "no_group_src =
     \<lparr>columns = [''sample'', ''f1''],
      rows = [no_row(''sample'' := Str ''A'', ''f1'' := Num 5)]\<rparr>"

text \<open>Models of a run: one with a summary from before, one fresh, one whose
  summary is empty, one whose scorer fails.\<close>

definition cached_model :: "nat model_run" where
  "cached_model = \<lparr>name = ''m1'', cached = True, scorer_ok = True, summary = metrics_src\<rparr>"

definition fresh_model :: "nat model_run" where
  "fresh_model = \<lparr>name = ''m2'', cached = False, scorer_ok = True, summary = no_group_src\<rparr>"

definition empty_model :: "nat model_run" where
  "empty_model = \<lparr>name = ''m3'', cached = False, scorer_ok = True, summary = no_metrics_src\<rparr>"

definition failing_model :: "nat model_run" where
  "failing_model = \<lparr>name = ''m4'', cached = False, scorer_ok = False, summary = metrics_src\<rparr>"

lemmas string_eval =
  norm_key_def strip_def lower_def lower_char_def is_space_def ascii_upper_def ascii_lower_def

section \<open>Properties of the column resolver\<close>

lemma find_app:
  "List.find P (xs @ ys) = (case List.find P xs of None \<Rightarrow> List.find P ys | Some x \<Rightarrow> Some x)"
  by (induction xs) auto

lemma store_apply: "store col m k = (if k = norm_key col then Some col else m k)"
  by (simp add: store_def)

lemma fold_lookup:
  "fold store cols m k =
     (case List.find (\<lambda>h. norm_key h = k) (rev cols) of
        Some h \<Rightarrow> Some h
      | None \<Rightarrow> m k)"
proof (induction cols rule: rev_induct)
  case Nil
  show ?case by simp
next
  case (snoc x xs)
  have "fold store (xs @ [x]) m k = store x (fold store xs m) k"
    by simp
  also have "\<dots> = (if k = norm_key x then Some x else fold store xs m k)"
    by (rule store_apply)
  also have "\<dots> = (case List.find (\<lambda>h. norm_key h = k) (rev (xs @ [x])) of
                      Some h \<Rightarrow> Some h | None \<Rightarrow> m k)"
    unfolding snoc.IH by auto
  finally show ?case .
qed

lemma build_lookup_last:
  "build_lookup cols k = List.find (\<lambda>h. norm_key h = k) (rev cols)"
  by (simp add: build_lookup_def fold_lookup split: option.splits)

lemma find_rev_last:
  "List.find P (rev xs) = Some h \<longleftrightarrow>
     (\<exists>j<length xs. xs ! j = h \<and> P h \<and> (\<forall>j'. j < j' \<and> j' < length xs \<longrightarrow> \<not> P (xs ! j')))"
proof (induction xs rule: rev_induct)
  case Nil
  show ?case by simp
next
  case (snoc x xs)
  show ?case
  proof (cases "P x")
    case True
    have "(\<exists>j<Suc (length xs). (xs @ [x]) ! j = h \<and> P h \<and>
            (\<forall>j'. j < j' \<and> j' < Suc (length xs) \<longrightarrow> \<not> P ((xs @ [x]) ! j'))) \<longleftrightarrow> x = h"
    proof
      assume "\<exists>j<Suc (length xs). (xs @ [x]) ! j = h \<and> P h \<and>
            (\<forall>j'. j < j' \<and> j' < Suc (length xs) \<longrightarrow> \<not> P ((xs @ [x]) ! j'))"
      then obtain j where j: "j < Suc (length xs)" "(xs @ [x]) ! j = h"
        "\<forall>j'. j < j' \<and> j' < Suc (length xs) \<longrightarrow> \<not> P ((xs @ [x]) ! j')" by blast
      have "j = length xs"
      proof (rule ccontr)
        assume "j \<noteq> length xs"
        with j(1) have "j < length xs" by simp
        with j(3) have "\<not> P ((xs @ [x]) ! length xs)" by blast
        with True show False by simp
      qed
      with j(2) show "x = h" by simp
    next
      assume "x = h"
      with True show "\<exists>j<Suc (length xs). (xs @ [x]) ! j = h \<and> P h \<and>
            (\<forall>j'. j < j' \<and> j' < Suc (length xs) \<longrightarrow> \<not> P ((xs @ [x]) ! j'))"
        by (intro exI[of _ "length xs"]) auto
    qed
    with True show ?thesis by simp
  next
    case False
    have "(\<exists>j<Suc (length xs). (xs @ [x]) ! j = h \<and> P h \<and>
            (\<forall>j'. j < j' \<and> j' < Suc (length xs) \<longrightarrow> \<not> P ((xs @ [x]) ! j'))) \<longleftrightarrow>
          (\<exists>j<length xs. xs ! j = h \<and> P h \<and> (\<forall>j'. j < j' \<and> j' < length xs \<longrightarrow> \<not> P (xs ! j')))"
      (is "?L \<longleftrightarrow> ?R")
    proof
      assume ?L
      then obtain j where j: "j < Suc (length xs)" "(xs @ [x]) ! j = h" "P h"
        "\<forall>j'. j < j' \<and> j' < Suc (length xs) \<longrightarrow> \<not> P ((xs @ [x]) ! j')" by blast
      have jl: "j < length xs"
      proof (rule ccontr)
        assume "\<not> j < length xs"
        with j(1) have "j = length xs" by simp
        with j(2) j(3) False show False by simp
      qed
      have "\<forall>j'. j < j' \<and> j' < length xs \<longrightarrow> \<not> P (xs ! j')"
      proof (intro allI impI)
        fix j' assume a: "j < j' \<and> j' < length xs"
        with j(4) have "\<not> P ((xs @ [x]) ! j')" by simp
        with a show "\<not> P (xs ! j')" by (simp add: nth_append)
      qed
      with jl j(2) j(3) show ?R by (auto simp: nth_append)
    next
      assume ?R
      then obtain j where j: "j < length xs" "xs ! j = h" "P h"
        "\<forall>j'. j < j' \<and> j' < length xs \<longrightarrow> \<not> P (xs ! j')" by blast
      have "\<forall>j'. j < j' \<and> j' < Suc (length xs) \<longrightarrow> \<not> P ((xs @ [x]) ! j')"
      proof (intro allI impI)
        fix j' assume a: "j < j' \<and> j' < Suc (length xs)"
        show "\<not> P ((xs @ [x]) ! j')"
        proof (cases "j' < length xs")
          case True
          with a j(4) show ?thesis by (simp add: nth_append)
        next
          case False
          with a have "j' = length xs" by simp
          with \<open>\<not> P x\<close> show ?thesis by simp
        qed
      qed
      with j show ?L by (intro exI[of _ j]) (simp add: nth_append)
    qed
    with False snoc.IH show ?thesis by simp
  qed
qed

lemma build_lookup_None:
  "build_lookup cols k = None \<longleftrightarrow> (\<forall>h\<in>set cols. norm_key h \<noteq> k)"
  by (auto simp: build_lookup_last find_None_iff)

lemma find_in_None:
  "find_in lookup cands = None \<longleftrightarrow> (\<forall>c\<in>set cands. lookup (norm_key c) = None)"
  by (induction cands) (auto split: option.splits)

lemma find_in_Some:
  "find_in lookup cands = Some h \<longleftrightarrow>
     (\<exists>i<length cands. lookup (norm_key (cands ! i)) = Some h \<and>
        (\<forall>i'<i. lookup (norm_key (cands ! i')) = None))"
proof (induction cands)
  case Nil
  show ?case by simp
next
  case (Cons c cands)
  show ?case
  proof (cases "lookup (norm_key c)")
    case None
    have "(\<exists>i<Suc (length cands). lookup (norm_key ((c # cands) ! i)) = Some h \<and>
             (\<forall>i'<i. lookup (norm_key ((c # cands) ! i')) = None)) \<longleftrightarrow>
          (\<exists>i<length cands. lookup (norm_key (cands ! i)) = Some h \<and>
             (\<forall>i'<i. lookup (norm_key (cands ! i')) = None))" (is "?L \<longleftrightarrow> ?R")
    proof
      assume ?L
      then obtain i where i: "i < Suc (length cands)"
        "lookup (norm_key ((c # cands) ! i)) = Some h"
        "\<forall>i'<i. lookup (norm_key ((c # cands) ! i')) = None" by blast
      from i(2) None obtain k where k: "i = Suc k" by (cases i) auto
      have "\<forall>i'<k. lookup (norm_key (cands ! i')) = None"
      proof (intro allI impI)
        fix i' assume "i' < k"
        then have "Suc i' < i" using k by simp
        with i(3) have "lookup (norm_key ((c # cands) ! Suc i')) = None" by blast
        then show "lookup (norm_key (cands ! i')) = None" by simp
      qed
      with i(1) i(2) k show ?R by (intro exI[of _ k]) simp
    next
      assume ?R
      then obtain k where k: "k < length cands" "lookup (norm_key (cands ! k)) = Some h"
        "\<forall>i'<k. lookup (norm_key (cands ! i')) = None" by blast
      have "\<forall>i'<Suc k. lookup (norm_key ((c # cands) ! i')) = None"
      proof (intro allI impI)
        fix i' assume a: "i' < Suc k"
        show "lookup (norm_key ((c # cands) ! i')) = None"
        proof (cases i')
          case 0
          with None show ?thesis by simp
        next
          case (Suc m)
          with a k(3) show ?thesis by simp
        qed
      qed
      with k(1) k(2) show ?L by (intro exI[of _ "Suc k"]) simp
    qed
    with None Cons.IH show ?thesis by simp
  next
    case (Some col)
    have "(\<exists>i<Suc (length cands). lookup (norm_key ((c # cands) ! i)) = Some h \<and>
             (\<forall>i'<i. lookup (norm_key ((c # cands) ! i')) = None)) \<longleftrightarrow> col = h"
    proof
      assume "\<exists>i<Suc (length cands). lookup (norm_key ((c # cands) ! i)) = Some h \<and>
             (\<forall>i'<i. lookup (norm_key ((c # cands) ! i')) = None)"
      then obtain i where i: "lookup (norm_key ((c # cands) ! i)) = Some h"
        "\<forall>i'<i. lookup (norm_key ((c # cands) ! i')) = None" by blast
      have "i = 0"
      proof (rule ccontr)
        assume "i \<noteq> 0"
        then have "0 < i" by simp
        with i(2) have "lookup (norm_key ((c # cands) ! 0)) = None" by blast
        with Some show False by simp
      qed
      with i(1) Some show "col = h" by simp
    next
      assume "col = h"
      with Some show "\<exists>i<Suc (length cands). lookup (norm_key ((c # cands) ! i)) = Some h \<and>
             (\<forall>i'<i. lookup (norm_key ((c # cands) ! i')) = None)"
        by (intro exI[of _ 0]) simp
    qed
    with Some show ?thesis by simp
  qed
qed

lemmas find_column_eval = find_column_def build_lookup_def store_def string_eval

text \<open>
  Claim C6, as amended: the resolver gives priority to the candidates, not to the
  headers. It answers with a header exactly when some header equals some candidate
  after lower-casing and trimming; the answer belongs to the earliest candidate (in
  candidate order) that any header matches, and among the headers matching that
  candidate it is the last one, since the dictionary keeps the last column stored
  under a key. No header is returned unless it equals a candidate under that
  normalisation, so a header that merely contains a candidate is never returned.
\<close>

theorem find_column_candidate_priority:
  "(find_column cols cands = None \<longleftrightarrow>
      (\<forall>h\<in>set cols. \<forall>c\<in>set cands. norm_key h \<noteq> norm_key c)) \<and>
   (find_column cols cands = Some h \<longleftrightarrow>
      (\<exists>i<length cands. \<exists>j<length cols.
          cols ! j = h \<and> norm_key h = norm_key (cands ! i) \<and>
          (\<forall>i'<i. \<forall>h'\<in>set cols. norm_key h' \<noteq> norm_key (cands ! i')) \<and>
          (\<forall>j'. j < j' \<and> j' < length cols \<longrightarrow>
                norm_key (cols ! j') \<noteq> norm_key (cands ! i))))"
proof
  show "find_column cols cands = None \<longleftrightarrow>
      (\<forall>h\<in>set cols. \<forall>c\<in>set cands. norm_key h \<noteq> norm_key c)"
    unfolding find_column_def find_in_None build_lookup_None by blast
next
  have "find_column cols cands = Some h \<longleftrightarrow>
      (\<exists>i<length cands.
          (\<exists>j<length cols. cols ! j = h \<and> norm_key h = norm_key (cands ! i) \<and>
             (\<forall>j'. j < j' \<and> j' < length cols \<longrightarrow>
                norm_key (cols ! j') \<noteq> norm_key (cands ! i))) \<and>
          (\<forall>i'<i. \<forall>h'\<in>set cols. norm_key h' \<noteq> norm_key (cands ! i')))"
    unfolding find_column_def find_in_Some build_lookup_None
    unfolding build_lookup_last find_rev_last ..
  then show "find_column cols cands = Some h \<longleftrightarrow>
      (\<exists>i<length cands. \<exists>j<length cols.
          cols ! j = h \<and> norm_key h = norm_key (cands ! i) \<and>
          (\<forall>i'<i. \<forall>h'\<in>set cols. norm_key h' \<noteq> norm_key (cands ! i')) \<and>
          (\<forall>j'. j < j' \<and> j' < length cols \<longrightarrow>
                norm_key (cols ! j') \<noteq> norm_key (cands ! i)))"
    by blast
qed

theorem find_column_candidate_priority_witness:
  "find_column [''Prompt'', ''TEXT '', '' prompt'', ''image prompt''] [''caption'', ''Prompt'', ''text'']
     = Some '' prompt'' \<and>
   (\<exists>i<length [''caption'', ''Prompt'', ''text''].
      \<exists>j<length [''Prompt'', ''TEXT '', '' prompt'', ''image prompt''].
          [''Prompt'', ''TEXT '', '' prompt'', ''image prompt''] ! j = '' prompt'' \<and>
          norm_key '' prompt'' = norm_key ([''caption'', ''Prompt'', ''text''] ! i) \<and>
          (\<forall>i'<i. \<forall>h'\<in>set [''Prompt'', ''TEXT '', '' prompt'', ''image prompt''].
               norm_key h' \<noteq> norm_key ([''caption'', ''Prompt'', ''text''] ! i')) \<and>
          (\<forall>j'. j < j' \<and> j' < length [''Prompt'', ''TEXT '', '' prompt'', ''image prompt''] \<longrightarrow>
                norm_key ([''Prompt'', ''TEXT '', '' prompt'', ''image prompt''] ! j')
                  \<noteq> norm_key ([''caption'', ''Prompt'', ''text''] ! i))) \<and>
   find_column [''image prompt'', ''prompts''] [''prompt'', ''text''] = None"
proof -
  have r: "find_column [''Prompt'', ''TEXT '', '' prompt'', ''image prompt'']
             [''caption'', ''Prompt'', ''text''] = Some '' prompt''"
    by (simp add: find_column_eval)
  have n: "\<forall>h\<in>set [''image prompt'', ''prompts'']. \<forall>c\<in>set [''prompt'', ''text''].
             norm_key h \<noteq> norm_key c"
    by (simp add: string_eval)
  note t = find_column_candidate_priority
  from r t [THEN conjunct2, THEN iffD1, OF r] t [THEN conjunct1, THEN iffD2, OF n]
  show ?thesis by blast
qed

text \<open>
  The claim as first worded fails: with the columns \<open>text, prompt, step0\<close>
  and the candidates of the prompt column the first header equal to a candidate is
  \<open>text\<close>, and the resolver answers \<open>prompt\<close>; with the columns
  \<open>Prompt, prompt\<close> the first such header is \<open>Prompt\<close>, and the resolver
  answers \<open>prompt\<close>.
\<close>

theorem find_column_first_header_counterexample:
  "find_column [''text'', ''prompt'', ''step0''] [''prompt'', ''t2i prompt'', ''text'', ''text_prompt'']
     = Some ''prompt'' \<and>
   spec_find_column [''text'', ''prompt'', ''step0''] [''prompt'', ''t2i prompt'', ''text'', ''text_prompt'']
     = Some ''text'' \<and>
   find_column [''Prompt'', ''prompt''] [''prompt''] = Some ''prompt'' \<and>
   spec_find_column [''Prompt'', ''prompt''] [''prompt''] = Some ''Prompt''"
  by (simp add: find_column_eval spec_find_column_def)

section \<open>Properties of the path resolver\<close>

lemmas path_eval =
  resolve_path_def parse_path_def parse_root_def str_path_def is_absolute_def joinpath_def
  resolve_nolinks_def string_eval

lemma split_sep_nonempty: "split_sep s \<noteq> []"
  by (induction s) (auto split: list.splits)

lemma split_sep_no_sep: "p \<in> set (split_sep s) \<Longrightarrow> CHR ''/'' \<notin> set p"
proof (induction s arbitrary: p)
  case Nil
  then show ?case by simp
next
  case (Cons c cs)
  show ?case
  proof (cases "c = CHR ''/''")
    case True
    with Cons show ?thesis by auto
  next
    case False
    obtain q qs where q: "split_sep cs = q # qs"
      using split_sep_nonempty [of cs] by (cases "split_sep cs") auto
    from Cons.prems False q have "p = c # q \<or> p \<in> set qs" by simp
    then show ?thesis
    proof
      assume "p = c # q"
      moreover have "CHR ''/'' \<notin> set q" using Cons.IH [of q] q by simp
      ultimately show ?thesis using False by auto
    next
      assume "p \<in> set qs"
      then show ?thesis using Cons.IH [of p] q by simp
    qed
  qed
qed

lemma split_sep_plain: "CHR ''/'' \<notin> set p \<Longrightarrow> split_sep p = [p]"
  by (induction p) auto

lemma split_sep_append:
  "CHR ''/'' \<notin> set p \<Longrightarrow> split_sep (p @ CHR ''/'' # s) = p # split_sep s"
  by (induction p) auto

lemma split_sep_join:
  "ps \<noteq> [] \<Longrightarrow> \<forall>p\<in>set ps. CHR ''/'' \<notin> set p \<Longrightarrow> split_sep (join_sep ps) = ps"
proof (induction ps rule: join_sep.induct)
  case 1
  then show ?case by simp
next
  case (2 p)
  then show ?case by (simp add: split_sep_plain)
next
  case (3 p q ps)
  then show ?case by (simp add: split_sep_append)
qed

text \<open>The components a parsed path can have.\<close>

definition component :: "string \<Rightarrow> bool" where
  "component p = (p \<noteq> [] \<and> p \<noteq> ''.'' \<and> CHR ''/'' \<notin> set p)"

lemma parse_path_components: "p \<in> set (parts (parse_path s)) \<Longrightarrow> component p"
  by (auto simp: parse_path_def component_def dest: split_sep_no_sep)

lemma parse_root_cases: "parse_root s = [] \<or> parse_root s = ''/'' \<or> parse_root s = ''//''"
  by (simp add: parse_root_def)

lemma filter_components:
  "\<forall>p\<in>set ps. component p \<Longrightarrow> filter (\<lambda>p. p \<noteq> [] \<and> p \<noteq> ''.'') ps = ps"
  by (induction ps) (auto simp: component_def)

lemma parts_of_joined:
  assumes "\<forall>p\<in>set ps. component p"
  shows "filter (\<lambda>p. p \<noteq> [] \<and> p \<noteq> ''.'') (split_sep (join_sep ps)) = ps"
proof (cases ps)
  case Nil
  then show ?thesis by simp
next
  case (Cons a as)
  with assms have "split_sep (join_sep ps) = ps"
    by (intro split_sep_join) (auto simp: component_def)
  with assms show ?thesis by (simp add: filter_components)
qed

lemma join_sep_head:
  "\<forall>p\<in>set ps. component p \<Longrightarrow> take 1 (join_sep ps) \<noteq> ''/''"
proof (induction ps rule: join_sep.induct)
  case 1
  then show ?case by simp
next
  case (2 p)
  then show ?case by (cases p) (auto simp: component_def)
next
  case (3 p q ps)
  then show ?case by (cases p) (auto simp: component_def)
qed

lemma parse_str_absolute:
  assumes r: "r = ''/'' \<or> r = ''//''" and c: "\<forall>p\<in>set ps. component p"
  shows "parse_path (str_path \<lparr>root = r, parts = ps\<rparr>) = \<lparr>root = r, parts = ps\<rparr>"
proof -
  let ?j = "join_sep ps"
  have h: "take 1 ?j \<noteq> ''/''" using c by (rule join_sep_head)
  have f: "filter (\<lambda>p. p \<noteq> [] \<and> p \<noteq> ''.'') (split_sep ?j) = ps"
    using c by (rule parts_of_joined)
  from r show ?thesis
  proof
    assume r1: "r = ''/''"
    have "parse_root (CHR ''/'' # ?j) = ''/''"
      using h by (cases ?j) (auto simp: parse_root_def)
    with r1 f show ?thesis by (simp add: str_path_def parse_path_def)
  next
    assume r2: "r = ''//''"
    have "parse_root (CHR ''/'' # CHR ''/'' # ?j) = ''//''"
      using h by (cases ?j) (auto simp: parse_root_def)
    with r2 f show ?thesis by (simp add: str_path_def parse_path_def)
  qed
qed

lemma parse_str_parse:
  assumes "is_absolute (parse_path s)"
  shows "parse_path (str_path (parse_path s)) = parse_path s"
proof -
  have r: "root (parse_path s) = ''/'' \<or> root (parse_path s) = ''//''"
    using assms parse_root_cases [of s] by (auto simp: is_absolute_def parse_path_def)
  have c: "\<forall>p\<in>set (parts (parse_path s)). component p"
    by (blast intro: parse_path_components)
  obtain r0 ps0 where q: "parse_path s = \<lparr>root = r0, parts = ps0\<rparr>"
    by (cases "parse_path s") simp
  from r c q parse_str_absolute [of r0 ps0] show ?thesis by simp
qed

text \<open>
  Claim C2, as amended: for every base directory and every value, the path resolver
  returns the empty string when the trimmed value is empty, whatever the base; for a
  relative value it returns the text of \<open>resolve()\<close> applied to the base
  directory's components followed by the value's; and for an absolute value it
  returns the value as \<open>pathlib\<close> writes it, without calling \<open>resolve()\<close>:
  read back as a path the result has the root and the components of the value, so
  \<open>..\<close> and symbolic links stay unresolved. No branch asks whether the target
  file exists.
\<close>

theorem resolve_path_branches:
  "(strip v = [] \<longrightarrow> resolve_path resolve base v = []) \<and>
   (strip v \<noteq> [] \<and> \<not> is_absolute (parse_path (strip v)) \<longrightarrow>
      resolve_path resolve base v =
        str_path (resolve \<lparr>root = root base,
                           parts = parts base @ parts (parse_path (strip v))\<rparr>)) \<and>
   (strip v \<noteq> [] \<and> is_absolute (parse_path (strip v)) \<longrightarrow>
      resolve_path resolve base v = str_path (parse_path (strip v)) \<and>
      parse_path (resolve_path resolve base v) = parse_path (strip v))"
proof (intro conjI impI)
  assume "strip v = []"
  then show "resolve_path resolve base v = []"
    by (simp add: resolve_path_def)
next
  assume a: "strip v \<noteq> [] \<and> \<not> is_absolute (parse_path (strip v))"
  then show "resolve_path resolve base v =
        str_path (resolve \<lparr>root = root base,
                           parts = parts base @ parts (parse_path (strip v))\<rparr>)"
    by (simp add: resolve_path_def joinpath_def Let_def)
next
  assume a: "strip v \<noteq> [] \<and> is_absolute (parse_path (strip v))"
  then show r: "resolve_path resolve base v = str_path (parse_path (strip v))"
    by (simp add: resolve_path_def Let_def)
  from a show "parse_path (resolve_path resolve base v) = parse_path (strip v)"
    unfolding r by (simp add: parse_str_parse)
qed

theorem resolve_path_branches_witness:
  "strip ''  '' = [] \<and>
   resolve_path (resolve_nolinks (parse_path ''/'')) (parse_path ''/models/m1'') ''  '' = [] \<and>
   strip '' img/./x/../a.png '' \<noteq> [] \<and>
   \<not> is_absolute (parse_path (strip '' img/./x/../a.png '')) \<and>
   resolve_path (resolve_nolinks (parse_path ''/'')) (parse_path ''/models/m1'') '' img/./x/../a.png ''
     = ''/models/m1/img/a.png'' \<and>
   strip ''/data//./b/../a.png'' \<noteq> [] \<and>
   is_absolute (parse_path (strip ''/data//./b/../a.png'')) \<and>
   resolve_path (resolve_nolinks (parse_path ''/'')) (parse_path ''/models/m1'') ''/data//./b/../a.png''
     = ''/data/b/../a.png'' \<and>
   parts (parse_path (resolve_path (resolve_nolinks (parse_path ''/'')) (parse_path ''/models/m1'')
                        ''/data//./b/../a.png''))
     = [''data'', ''b'', ''..'', ''a.png'']"
proof -
  let ?R = "resolve_nolinks (parse_path ''/'')"
  let ?B = "parse_path ''/models/m1''"
  have e: "strip ''  '' = []"
    by (simp add: string_eval)
  have r: "strip '' img/./x/../a.png '' \<noteq> [] \<and>
           \<not> is_absolute (parse_path (strip '' img/./x/../a.png ''))"
    by (simp add: path_eval)
  have a: "strip ''/data//./b/../a.png'' \<noteq> [] \<and>
           is_absolute (parse_path (strip ''/data//./b/../a.png''))"
    by (simp add: path_eval)
  have v1: "str_path (?R \<lparr>root = root ?B,
              parts = parts ?B @ parts (parse_path (strip '' img/./x/../a.png ''))\<rparr>)
            = ''/models/m1/img/a.png''"
    by (simp add: path_eval)
  have v2: "str_path (parse_path (strip ''/data//./b/../a.png'')) = ''/data/b/../a.png''"
    by (simp add: path_eval)
  have v3: "parts (parse_path (strip ''/data//./b/../a.png'')) = [''data'', ''b'', ''..'', ''a.png'']"
    by (simp add: path_eval)
  note t = resolve_path_branches [of _ ?R ?B]
  from t [of "''  ''"] e
  have c1: "resolve_path ?R ?B ''  '' = []" by blast
  from t [of "'' img/./x/../a.png ''"] r v1
  have c2: "resolve_path ?R ?B '' img/./x/../a.png '' = ''/models/m1/img/a.png''"
    by simp
  from t [of "''/data//./b/../a.png''"] a
  have c3a: "resolve_path ?R ?B ''/data//./b/../a.png''
               = str_path (parse_path (strip ''/data//./b/../a.png'')) \<and>
             parse_path (resolve_path ?R ?B ''/data//./b/../a.png'')
               = parse_path (strip ''/data//./b/../a.png'')"
    by blast
  from c3a v2 v3
  have c3: "resolve_path ?R ?B ''/data//./b/../a.png'' = ''/data/b/../a.png'' \<and>
            parts (parse_path (resolve_path ?R ?B ''/data//./b/../a.png''))
              = [''data'', ''b'', ''..'', ''a.png'']"
    by metis
  from e r a c1 c2 c3 show ?thesis by blast
qed

text \<open>
  The claim as first worded fails for an absolute value: \<open>/data/../img/a.png\<close>
  comes back with its \<open>..\<close>, where the canonical form (here on a file system
  without symbolic links) is \<open>/img/a.png\<close>.
\<close>

theorem resolve_path_absolute_counterexample:
  "resolve_path (resolve_nolinks (parse_path ''/'')) (parse_path ''/models/m1'') ''/data/../img/a.png''
     = ''/data/../img/a.png'' \<and>
   str_path (resolve_nolinks (parse_path ''/'') (parse_path ''/data/../img/a.png''))
     = ''/img/a.png''"
  by (simp add: path_eval)

section \<open>Properties of the standardiser\<close>

subsection \<open>Trimming\<close>

lemma dropWhile_all: "(\<forall>c\<in>set (dropWhile P xs). P c) \<longleftrightarrow> (\<forall>c\<in>set xs. P c)"
  by (induction xs) auto

lemma strip_Nil_iff: "strip s = [] \<longleftrightarrow> (\<forall>c\<in>set s. is_space c)"
proof -
  have "strip s = [] \<longleftrightarrow> (\<forall>c\<in>set (rev (dropWhile is_space s)). is_space c)"
    by (simp add: strip_def dropWhile_eq_Nil_conv)
  also have "\<dots> \<longleftrightarrow> (\<forall>c\<in>set s. is_space c)"
    by (simp add: dropWhile_all)
  finally show ?thesis .
qed

lemma norm_key_Nil: "norm_key [] = []"
  by (simp add: norm_key_def strip_def lower_def)

lemma norm_key_nonempty:
  "c \<in> set s \<Longrightarrow> \<not> is_space (lower_char c) \<Longrightarrow> norm_key s \<noteq> []"
  by (auto simp: norm_key_def strip_Nil_iff lower_def)

subsection \<open>What the resolver finds is a column with a name\<close>

lemma find_column_Some_key:
  assumes "find_column cols cands = Some h"
  shows "h \<in> set cols \<and> (\<exists>c\<in>set cands. norm_key h = norm_key c)"
proof -
  from assms obtain i where i: "i < length cands"
    "build_lookup cols (norm_key (cands ! i)) = Some h"
    unfolding find_column_def find_in_Some by blast
  from i(2) obtain j where "j < length cols" "cols ! j = h" "norm_key h = norm_key (cands ! i)"
    unfolding build_lookup_last find_rev_last by blast
  with i(1) show ?thesis by (auto intro: nth_mem)
qed

lemma find_column_truthy:
  assumes "\<forall>c\<in>set cands. norm_key c \<noteq> []"
  shows "truthy (find_column cols cands) \<longleftrightarrow> find_column cols cands \<noteq> None"
proof (cases "find_column cols cands")
  case None
  then show ?thesis by simp
next
  case (Some h)
  from find_column_Some_key [OF Some] assms have "norm_key h \<noteq> []" by auto
  then have "h \<noteq> []" using norm_key_Nil by auto
  with Some show ?thesis by simp
qed

lemma s_not_space: "\<not> is_space (lower_char CHR ''s'')"
  by (simp add: lower_char_def is_space_def ascii_upper_def ascii_lower_def)

lemma e_not_space: "\<not> is_space (lower_char CHR ''e'')"
  by (simp add: lower_char_def is_space_def ascii_upper_def ascii_lower_def)

lemma step_candidates_keys: "\<forall>c\<in>set (step_candidates idx). norm_key c \<noteq> []"
proof -
  have s: "norm_key (CHR ''s'' # x) \<noteq> []" for x
    by (rule norm_key_nonempty [of "CHR ''s''"]) (simp_all add: s_not_space)
  have e: "norm_key (CHR ''e'' # x) \<noteq> []" for x
    by (rule norm_key_nonempty [of "CHR ''e''"]) (simp_all add: e_not_space)
  show ?thesis by (simp add: step_candidates_def s e)
qed

lemma step0_candidates_keys: "\<forall>c\<in>set step0_candidates. norm_key c \<noteq> []"
  by (simp add: step0_candidates_def string_eval)

lemma prompt_candidates_keys: "\<forall>c\<in>set prompt_candidates. norm_key c \<noteq> []"
  by (simp add: prompt_candidates_def string_eval)

lemma editing_candidates_keys: "\<forall>c\<in>set editing_candidates. norm_key c \<noteq> []"
  by (simp add: editing_candidates_def string_eval)

lemmas truthy_step = find_column_truthy [OF step_candidates_keys]
lemmas truthy_step0 = find_column_truthy [OF step0_candidates_keys]
lemmas truthy_prompt = find_column_truthy [OF prompt_candidates_keys]
lemmas truthy_editing = find_column_truthy [OF editing_candidates_keys]

subsection \<open>The dictionary of the step columns\<close>

lemma map_of_detect_steps:
  "map_of (detect_steps cols idxs) i =
     (if i \<in> set idxs then find_column cols (step_candidates i) else None)"
proof (induction idxs)
  case Nil
  show ?case by simp
next
  case (Cons a idxs)
  show ?case
  proof (cases "find_column cols (step_candidates a)")
    case None
    with Cons show ?thesis by (auto simp: Let_def)
  next
    case (Some h)
    then have "truthy (find_column cols (step_candidates a))"
      using truthy_step [of cols a] by simp
    with Some Cons show ?thesis by (auto simp: Let_def)
  qed
qed

lemma map_of_detect_step0:
  "map_of (detect_step0 cols) i = (if i = 0 then find_column cols step0_candidates else None)"
proof (cases "find_column cols step0_candidates")
  case None
  then show ?thesis by (simp add: detect_step0_def)
next
  case (Some h)
  then have "truthy (find_column cols step0_candidates)"
    using truthy_step0 [of cols] by simp
  with Some show ?thesis by (simp add: detect_step0_def)
qed

lemma map_of_step_columns: "map_of (step_columns cols) i = step_source cols i"
proof -
  have "i \<in> set [1..<10] \<longleftrightarrow> i \<noteq> 0 \<and> i < 10" by auto
  then show ?thesis
    unfolding step_columns_def step_source_def map_of_append map_add_def
      map_of_detect_steps map_of_detect_step0
    by (auto split: option.splits)
qed

lemma step_columns_Nil: "step_columns cols = [] \<longleftrightarrow> (\<forall>i. step_source cols i = None)"
proof -
  have "step_columns cols = [] \<longleftrightarrow> map_of (step_columns cols) = Map.empty"
    by simp
  also have "\<dots> \<longleftrightarrow> (\<forall>i. step_source cols i = None)"
    by (simp add: fun_eq_iff map_of_step_columns)
  finally show ?thesis .
qed

lemma fold_max_Max: "xs \<noteq> [] \<Longrightarrow> fold max xs (0::nat) = Max (set xs)"
proof -
  assume ne: "xs \<noteq> []"
  have "fold max xs (0::nat) = Max (set (0 # xs))"
    by (rule Max.set_eq_fold [symmetric])
  also have "\<dots> = max 0 (Max (set xs))"
    using ne by simp
  finally show ?thesis by simp
qed

lemma max_key_highest:
  assumes "step_columns cols \<noteq> []"
  shows "step_source cols (max_key (step_columns cols)) \<noteq> None \<and>
         (\<forall>i. step_source cols i \<noteq> None \<longrightarrow> i \<le> max_key (step_columns cols))"
proof -
  let ?d = "step_columns cols"
  let ?ks = "map fst ?d"
  have ne: "?ks \<noteq> []" using assms by simp
  have m: "max_key ?d = Max (set ?ks)"
    unfolding max_key_def by (rule fold_max_Max [OF ne])
  have dom: "set ?ks = {i. step_source cols i \<noteq> None}"
    using dom_map_of_conv_image_fst [of ?d] by (auto simp: dom_def map_of_step_columns)
  have "Max (set ?ks) \<in> set ?ks"
    using ne by (intro Max_in) auto
  moreover have "\<forall>i\<in>set ?ks. i \<le> Max (set ?ks)"
    by simp
  ultimately show ?thesis unfolding m dom by blast
qed

lemma max_key_le_9:
  assumes "step_columns cols \<noteq> []"
  shows "max_key (step_columns cols) \<le> 9"
proof -
  from max_key_highest [OF assms]
  have "step_source cols (max_key (step_columns cols)) \<noteq> None" by blast
  then show ?thesis by (auto simp: step_source_def split: if_splits)
qed

subsection \<open>The line written for a row\<close>

lemma str_nat_digit: "n < 10 \<Longrightarrow> str_nat n = [digit_char n]"
  by simp

lemma less_10_cases:
  "(i::nat) < 10 \<Longrightarrow> i = 0 \<or> i = 1 \<or> i = 2 \<or> i = 3 \<or> i = 4 \<or> i = 5 \<or> i = 6 \<or> i = 7 \<or> i = 8 \<or> i = 9"
  by arith

lemma digit_char_inj:
  assumes "i < 10" "j < 10" "digit_char i = digit_char j"
  shows "i = j"
  using less_10_cases [OF assms(1)] less_10_cases [OF assms(2)] assms(3)
  by (auto simp: digit_char_def)

lemma step_field_inj:
  assumes "i < 10" "j < 10" "step_field i = step_field j"
  shows "i = j"
proof -
  from assms have "digit_char i = digit_char j"
    by (simp add: step_field_def str_nat_digit del: str_nat.simps)
  with assms(1,2) show ?thesis by (rule digit_char_inj)
qed

lemma step_field_not_prompt:
  "step_field i \<noteq> ''prompt''" "step_field i \<noteq> ''editing_prompt''"
  by (simp_all add: step_field_def)

lemma map_of_keyed:
  "inj_on f (set xs) \<Longrightarrow> x \<in> set xs \<Longrightarrow> map_of (map (\<lambda>i. (f i, g i)) xs) (f x) = Some (g x)"
  by (induction xs) (auto simp: inj_on_def)

lemma writerow_make_record:
  assumes K: "K \<le> 9"
    and ec: "truthy ec \<longleftrightarrow> ec \<noteq> None"
    and sc: "\<forall>i. truthy (map_of sc i) \<longleftrightarrow> map_of sc i \<noteq> None"
  shows "writerow (fieldnames K) (make_record resolve shw model_dir pc ec sc K row) =
           [strip (str_cell shw (row pc)), editing_cell shw ec row]
           @ map (\<lambda>i. step_cell resolve shw model_dir (map_of sc i) row) [0..<K + 1]"
proof -
  let ?cell = "\<lambda>i. step_cell resolve shw model_dir (map_of sc i) row"
  let ?steps = "map (\<lambda>idx. (step_field idx, ?cell idx)) [0..<K + 1]"
  let ?P = "strip (str_cell shw (row pc))"
  let ?E = "editing_cell shw ec row"
  let ?rec = "[(''prompt'', ?P), (''editing_prompt'', ?E)] @ ?steps"
  have cell: "(let src_col = map_of sc i
               in if truthy src_col \<and> notna (row (the src_col))
                  then resolve_path resolve model_dir (str_cell shw (row (the src_col)))
                  else []) = ?cell i" for i
    using sc [rule_format, of i]
    by (cases "map_of sc i") (auto simp: step_cell_def notna_def Let_def)
  have E: "(if truthy ec \<and> notna (row (the ec)) then strip (str_cell shw (row (the ec))) else [])
           = ?E"
    using ec by (cases ec) (auto simp: editing_cell_def notna_def)
  have rec: "make_record resolve shw model_dir pc ec sc K row = ?rec"
    unfolding make_record_def cell E ..
  have inj: "inj_on step_field (set [0..<K + 1])"
  proof (rule inj_onI)
    fix i j
    assume a: "i \<in> set [0..<K + 1]" "j \<in> set [0..<K + 1]" "step_field i = step_field j"
    from a(1,2) K have "i < 10" "j < 10" by auto
    then show "i = j" using a(3) by (rule step_field_inj)
  qed
  have look: "map_of ?rec (step_field i) = Some (?cell i)" if "i \<in> set [0..<K + 1]" for i
  proof -
    have "map_of ?rec (step_field i) = map_of ?steps (step_field i)"
      by (simp add: step_field_not_prompt del: upt_Suc)
    also have "\<dots> = Some (?cell i)"
      using inj that by (rule map_of_keyed)
    finally show ?thesis .
  qed
  have "map (\<lambda>key. case map_of ?rec key of Some v \<Rightarrow> v | None \<Rightarrow> [])
            (map step_field [0..<K + 1])
        = map ?cell [0..<K + 1]"
    unfolding map_map comp_def
    by (rule map_cong [OF refl]) (simp only: look option.case)
  moreover have "map_of ?rec ''prompt'' = Some ?P"
    by simp
  moreover have "map_of ?rec ''editing_prompt'' = Some ?E"
    by simp
  ultimately show ?thesis
    unfolding rec writerow_def fieldnames_def
    by (simp only: map_append list.map option.case append.simps)
qed

subsection \<open>Acceptance and refusal\<close>

lemma truthy_step_source: "truthy (step_source cols i) \<longleftrightarrow> step_source cols i \<noteq> None"
  by (simp add: step_source_def truthy_step0 truthy_step)

lemma standardise_accepts:
  assumes r: "rows df \<noteq> []"
    and p: "find_column (columns df) prompt_candidates = Some pc"
    and s: "step_source (columns df) i0 \<noteq> None"
  shows "standardise_model_csv resolve shw model_dir (Some df) =
           Inr (max_key (step_columns (columns df)),
                \<lparr>header = fieldnames (max_key (step_columns (columns df))),
                 body = map (\<lambda>row.
                          [strip (str_cell shw (row pc)),
                           editing_cell shw (find_column (columns df) editing_candidates) row]
                          @ map (\<lambda>i. step_cell resolve shw model_dir (step_source (columns df) i) row)
                                [0..<max_key (step_columns (columns df)) + 1])
                        (rows df)\<rparr>)"
proof -
  let ?cols = "columns df"
  let ?K = "max_key (step_columns ?cols)"
  from find_column_Some_key [OF p] have "?cols \<noteq> []" by auto
  with r have ne: "\<not> empty df" by (simp add: empty_def)
  from p have tp: "truthy (find_column ?cols prompt_candidates)"
    using truthy_prompt [of ?cols] by simp
  from s have sn: "step_columns ?cols \<noteq> []"
    by (auto simp: step_columns_Nil)
  have K: "?K \<le> 9" using sn by (rule max_key_le_9)
  have w: "writerow (fieldnames ?K)
             (make_record resolve shw model_dir pc (find_column ?cols editing_candidates)
                (step_columns ?cols) ?K row)
           = [strip (str_cell shw (row pc)),
              editing_cell shw (find_column ?cols editing_candidates) row]
             @ map (\<lambda>i. step_cell resolve shw model_dir (step_source ?cols i) row) [0..<?K + 1]"
    for row
    using writerow_make_record [OF K truthy_editing [of ?cols], of "step_columns ?cols"]
    by (simp add: map_of_step_columns truthy_step_source)
  show ?thesis
    unfolding standardise_model_csv_def
    using ne tp sn p by (simp add: Let_def w del: upt_Suc)
qed

lemma standardise_refuses:
  "standardise_model_csv resolve shw model_dir None = Inl FileNotFoundError"
  "rows df = [] \<Longrightarrow>
     standardise_model_csv resolve shw model_dir (Some df) = Inl (ValueError ''No rows found'')"
  "rows df \<noteq> [] \<Longrightarrow> find_column (columns df) prompt_candidates = None \<Longrightarrow>
     \<exists>m. standardise_model_csv resolve shw model_dir (Some df) = Inl (ValueError m)"
  "rows df \<noteq> [] \<Longrightarrow> find_column (columns df) prompt_candidates \<noteq> None \<Longrightarrow>
     \<forall>i. step_source (columns df) i = None \<Longrightarrow>
     standardise_model_csv resolve shw model_dir (Some df) = Inl (ValueError ''No step columns found'')"
proof -
  show "standardise_model_csv resolve shw model_dir None = Inl FileNotFoundError"
    by (simp add: standardise_model_csv_def)
  show "rows df = [] \<Longrightarrow>
     standardise_model_csv resolve shw model_dir (Some df) = Inl (ValueError ''No rows found'')"
    by (simp add: standardise_model_csv_def empty_def)
  show "rows df \<noteq> [] \<Longrightarrow> find_column (columns df) prompt_candidates = None \<Longrightarrow>
     \<exists>m. standardise_model_csv resolve shw model_dir (Some df) = Inl (ValueError m)"
    by (simp add: standardise_model_csv_def Let_def)
  show "standardise_model_csv resolve shw model_dir (Some df) = Inl (ValueError ''No step columns found'')"
    if r: "rows df \<noteq> []" and p: "find_column (columns df) prompt_candidates \<noteq> None"
      and s: "\<forall>i. step_source (columns df) i = None"
  proof -
    from p obtain pc where pc: "find_column (columns df) prompt_candidates = Some pc" by auto
    from find_column_Some_key [OF pc] have "columns df \<noteq> []" by auto
    with r have ne: "\<not> empty df" by (simp add: empty_def)
    from pc have tp: "truthy (find_column (columns df) prompt_candidates)"
      using truthy_prompt [of "columns df"] by simp
    from s have "step_columns (columns df) = []" by (simp add: step_columns_Nil)
    with ne tp show ?thesis by (simp add: standardise_model_csv_def Let_def)
  qed
qed

lemma standardise_returns:
  assumes r: "standardise_model_csv resolve shw model_dir (Some df) = Inr (K, out)"
  shows "rows df \<noteq> [] \<and> find_column (columns df) prompt_candidates \<noteq> None \<and>
         (\<exists>i. step_source (columns df) i \<noteq> None)"
proof (rule ccontr)
  assume "\<not> ?thesis"
  then consider "rows df = []"
    | "rows df \<noteq> []" "find_column (columns df) prompt_candidates = None"
    | "rows df \<noteq> []" "find_column (columns df) prompt_candidates \<noteq> None"
      "\<forall>i. step_source (columns df) i = None"
    by blast
  then show False
  proof cases
    case 1
    from standardise_refuses(2) [OF 1, of resolve shw model_dir] r show False by simp
  next
    case 2
    from standardise_refuses(3) [OF 2, of resolve shw model_dir] r show False by auto
  next
    case 3
    from standardise_refuses(4) [OF 3, of resolve shw model_dir] r show False by simp
  qed
qed

lemma resolve_path_blank: "strip v = [] \<Longrightarrow> resolve_path resolve base v = []"
  by (simp add: resolve_path_def)

subsection \<open>The claims about the standardiser\<close>

text \<open>
  Claim C3: for a source table with at least one row, a prompt column the resolver
  finds and at least one step column it detects, the standardiser writes a file;
  and whenever it writes a file, the header is
  \<open>prompt, editing_prompt, step0_path, \<dots>, stepK_path\<close>, where \<open>K\<close> is the
  highest step index with a detected column. Every line has one cell per header
  field; the cell of a step without a source column is empty in every line (a
  missing base column included), and the cell of a step with a source column is
  the resolved path of the source cell, or empty when that cell is missing or
  blank.
\<close>

theorem standardise_header_and_steps:
  "(rows df \<noteq> [] \<and> find_column (columns df) prompt_candidates \<noteq> None \<and>
    (\<exists>i. step_source (columns df) i \<noteq> None) \<longrightarrow>
      (\<exists>K out. standardise_model_csv resolve shw model_dir (Some df) = Inr (K, out))) \<and>
   (\<forall>K out. standardise_model_csv resolve shw model_dir (Some df) = Inr (K, out) \<longrightarrow>
      step_source (columns df) K \<noteq> None \<and>
      (\<forall>i. step_source (columns df) i \<noteq> None \<longrightarrow> i \<le> K) \<and>
      header out = [''prompt'', ''editing_prompt''] @ map step_field [0..<K + 1] \<and>
      length (body out) = length (rows df) \<and>
      (\<forall>n<length (rows df).
         length (body out ! n) = length (header out) \<and>
         (\<forall>i\<le>K. body out ! n ! (i + 2) =
            (case step_source (columns df) i of
               None \<Rightarrow> []
             | Some c \<Rightarrow>
                 if (rows df ! n) c = NA \<or> strip (str_cell shw ((rows df ! n) c)) = [] then []
                 else resolve_path resolve model_dir (str_cell shw ((rows df ! n) c))))))"
proof (intro conjI impI allI)
  assume "rows df \<noteq> [] \<and> find_column (columns df) prompt_candidates \<noteq> None \<and>
    (\<exists>i. step_source (columns df) i \<noteq> None)"
  then obtain pc i0 where "rows df \<noteq> []" "find_column (columns df) prompt_candidates = Some pc"
    "step_source (columns df) i0 \<noteq> None" by auto
  from standardise_accepts [OF this, of resolve shw model_dir]
  show "\<exists>K out. standardise_model_csv resolve shw model_dir (Some df) = Inr (K, out)"
    by blast
next
  fix K out
  assume ret: "standardise_model_csv resolve shw model_dir (Some df) = Inr (K, out)"
  let ?cols = "columns df"
  let ?K = "max_key (step_columns ?cols)"
  from standardise_returns [OF ret] obtain pc i0 where
    r: "rows df \<noteq> []" and pc: "find_column ?cols prompt_candidates = Some pc" and
    s: "step_source ?cols i0 \<noteq> None" by auto
  let ?line = "\<lambda>row. [strip (str_cell shw (row pc)),
                       editing_cell shw (find_column ?cols editing_candidates) row]
                      @ map (\<lambda>i. step_cell resolve shw model_dir (step_source ?cols i) row)
                            [0..<?K + 1]"
  from standardise_accepts [OF r pc s, of resolve shw model_dir] ret
  have K: "K = ?K" and out: "out = \<lparr>header = fieldnames ?K, body = map ?line (rows df)\<rparr>"
    by simp_all
  from s have sn: "step_columns ?cols \<noteq> []"
    by (auto simp: step_columns_Nil)
  note hi = max_key_highest [OF sn]
  have hd: "header out = [''prompt'', ''editing_prompt''] @ map step_field [0..<K + 1]"
    unfolding out K by (simp add: fieldnames_def)
  have len: "length (body out) = length (rows df)"
    unfolding out by simp
  have cells: "length (body out ! n) = length (header out) \<and>
      (\<forall>i\<le>K. body out ! n ! (i + 2) =
         (case step_source ?cols i of
            None \<Rightarrow> []
          | Some c \<Rightarrow>
              if (rows df ! n) c = NA \<or> strip (str_cell shw ((rows df ! n) c)) = [] then []
              else resolve_path resolve model_dir (str_cell shw ((rows df ! n) c))))"
    if n: "n < length (rows df)" for n
  proof
    show "length (body out ! n) = length (header out)"
      unfolding out using n by (simp add: fieldnames_def)
    show "\<forall>i\<le>K. body out ! n ! (i + 2) =
         (case step_source ?cols i of
            None \<Rightarrow> []
          | Some c \<Rightarrow>
              if (rows df ! n) c = NA \<or> strip (str_cell shw ((rows df ! n) c)) = [] then []
              else resolve_path resolve model_dir (str_cell shw ((rows df ! n) c)))"
    proof (intro allI impI)
      fix i assume i: "i \<le> K"
      have "body out ! n ! (i + 2) =
              map (\<lambda>i. step_cell resolve shw model_dir (step_source ?cols i) (rows df ! n))
                  [0..<?K + 1] ! i"
        unfolding out using n by (simp add: nth_append del: upt_Suc)
      also have "\<dots> = step_cell resolve shw model_dir (step_source ?cols i) (rows df ! n)"
        using i unfolding K by (simp del: upt_Suc)
      finally show "body out ! n ! (i + 2) =
         (case step_source ?cols i of
            None \<Rightarrow> []
          | Some c \<Rightarrow>
              if (rows df ! n) c = NA \<or> strip (str_cell shw ((rows df ! n) c)) = [] then []
              else resolve_path resolve model_dir (str_cell shw ((rows df ! n) c)))"
        by (auto simp: step_cell_def resolve_path_blank split: option.splits)
    qed
  qed
  show "step_source (columns df) K \<noteq> None" using hi unfolding K by blast
  show "\<And>i. step_source (columns df) i \<noteq> None \<Longrightarrow> i \<le> K" using hi unfolding K by blast
  show "header out = [''prompt'', ''editing_prompt''] @ map step_field [0..<K + 1]" by (rule hd)
  show "length (body out) = length (rows df)" by (rule len)
  show "\<And>n. n < length (rows df) \<Longrightarrow> length (body out ! n) = length (header out)"
    using cells by blast
  show "\<And>n i. n < length (rows df) \<Longrightarrow> i \<le> K \<Longrightarrow> body out ! n ! (i + 2) =
         (case step_source ?cols i of
            None \<Rightarrow> []
          | Some c \<Rightarrow>
              if (rows df ! n) c = NA \<or> strip (str_cell shw ((rows df ! n) c)) = [] then []
              else resolve_path resolve model_dir (str_cell shw ((rows df ! n) c)))"
    using cells by blast
qed

theorem standardise_header_and_steps_witness:
  "rows edits_src \<noteq> [] \<and>
   find_column (columns edits_src) prompt_candidates \<noteq> None \<and>
   step_source (columns edits_src) 0 = None \<and>
   step_source (columns edits_src) 2 \<noteq> None \<and>
   standardise_model_csv fs_resolve str_nat m1_dir (Some edits_src) =
     Inr (2, \<lparr>header = [''prompt'', ''editing_prompt'', ''step0_path'', ''step1_path'', ''step2_path''],
              body = [[''a red kimono'', [], [], ''/data/m1/img/a1.png'', ''/abs/a2.png''],
                      [''a blue sari'', [], [], [], ''/data/m1/img/b2.png'']]\<rparr>) \<and>
   (\<exists>K out. standardise_model_csv fs_resolve str_nat m1_dir (Some edits_src) = Inr (K, out) \<and>
      step_source (columns edits_src) K \<noteq> None \<and>
      (\<forall>i. step_source (columns edits_src) i \<noteq> None \<longrightarrow> i \<le> K) \<and>
      header out = [''prompt'', ''editing_prompt''] @ map step_field [0..<K + 1] \<and>
      length (body out) = length (rows edits_src) \<and>
      (\<forall>n<length (rows edits_src).
         length (body out ! n) = length (header out) \<and>
         (\<forall>i\<le>K. body out ! n ! (i + 2) =
            (case step_source (columns edits_src) i of
               None \<Rightarrow> []
             | Some c \<Rightarrow>
                 if (rows edits_src ! n) c = NA \<or>
                    strip (str_cell str_nat ((rows edits_src ! n) c)) = [] then []
                 else resolve_path fs_resolve m1_dir (str_cell str_nat ((rows edits_src ! n) c))))))"
proof -
  have h1: "rows edits_src \<noteq> []"
    by (simp add: edits_src_def)
  have h2: "find_column (columns edits_src) prompt_candidates \<noteq> None"
    by code_simp
  have h3: "step_source (columns edits_src) 2 \<noteq> None"
    by code_simp
  have h0: "step_source (columns edits_src) 0 = None"
    by code_simp
  have v: "standardise_model_csv fs_resolve str_nat m1_dir (Some edits_src) =
     Inr (2, \<lparr>header = [''prompt'', ''editing_prompt'', ''step0_path'', ''step1_path'', ''step2_path''],
              body = [[''a red kimono'', [], [], ''/data/m1/img/a1.png'', ''/abs/a2.png''],
                      [''a blue sari'', [], [], [], ''/data/m1/img/b2.png'']]\<rparr>)"
    by code_simp
  note t = standardise_header_and_steps [of edits_src fs_resolve str_nat m1_dir]
  from h3 have h3': "\<exists>i. step_source (columns edits_src) i \<noteq> None" by blast
  from t [THEN conjunct1] h1 h2 h3' obtain K out where
    ret: "standardise_model_csv fs_resolve str_nat m1_dir (Some edits_src) = Inr (K, out)"
    by blast
  from t [THEN conjunct2, rule_format, OF ret] ret
  have e: "\<exists>K out. standardise_model_csv fs_resolve str_nat m1_dir (Some edits_src) = Inr (K, out) \<and>
      step_source (columns edits_src) K \<noteq> None \<and>
      (\<forall>i. step_source (columns edits_src) i \<noteq> None \<longrightarrow> i \<le> K) \<and>
      header out = [''prompt'', ''editing_prompt''] @ map step_field [0..<K + 1] \<and>
      length (body out) = length (rows edits_src) \<and>
      (\<forall>n<length (rows edits_src).
         length (body out ! n) = length (header out) \<and>
         (\<forall>i\<le>K. body out ! n ! (i + 2) =
            (case step_source (columns edits_src) i of
               None \<Rightarrow> []
             | Some c \<Rightarrow>
                 if (rows edits_src ! n) c = NA \<or>
                    strip (str_cell str_nat ((rows edits_src ! n) c)) = [] then []
                 else resolve_path fs_resolve m1_dir (str_cell str_nat ((rows edits_src ! n) c)))))"
    by (intro exI [of _ K] exI [of _ out]) blast
  from h1 h2 h0 h3 v e show ?thesis by (intro conjI)
qed

text \<open>
  Claim C4: the standardiser raises an error exactly when the source file does not
  exist, has no data row, has no prompt column among the accepted names, or has no
  step column at all: \<open>FileNotFoundError\<close> in the first case and
  \<open>ValueError\<close> in the other three. For every other source it returns the
  highest detected step index and writes the canonical file: the header
  \<open>prompt, editing_prompt, step0_path, \<dots>, stepK_path\<close> and, for each row of
  the source in order, the line of its trimmed prompt, its trimmed editing prompt
  (empty without an editing column or for a missing cell) and its step cells.
\<close>

theorem standardise_failure_modes:
  "((\<exists>e. standardise_model_csv resolve shw model_dir source = Inl e) \<longleftrightarrow>
      (source = None \<or>
       (\<exists>df. source = Some df \<and>
          (rows df = [] \<or> find_column (columns df) prompt_candidates = None \<or>
           (\<forall>i. step_source (columns df) i = None))))) \<and>
   ((\<exists>K out. standardise_model_csv resolve shw model_dir source = Inr (K, out)) \<longleftrightarrow>
      (\<exists>df. source = Some df \<and> rows df \<noteq> [] \<and>
          find_column (columns df) prompt_candidates \<noteq> None \<and>
          (\<exists>i. step_source (columns df) i \<noteq> None))) \<and>
   (source = None \<longrightarrow>
      standardise_model_csv resolve shw model_dir source = Inl FileNotFoundError) \<and>
   (\<forall>df. source = Some df \<and>
          (rows df = [] \<or> find_column (columns df) prompt_candidates = None \<or>
           (\<forall>i. step_source (columns df) i = None)) \<longrightarrow>
      (\<exists>msg. standardise_model_csv resolve shw model_dir source = Inl (ValueError msg))) \<and>
   (\<forall>df pc. source = Some df \<and> rows df \<noteq> [] \<and>
          find_column (columns df) prompt_candidates = Some pc \<and>
          (\<exists>i. step_source (columns df) i \<noteq> None) \<longrightarrow>
      (\<exists>K. step_source (columns df) K \<noteq> None \<and>
           (\<forall>i. step_source (columns df) i \<noteq> None \<longrightarrow> i \<le> K) \<and>
           standardise_model_csv resolve shw model_dir source =
             Inr (K,
                  \<lparr>header = [''prompt'', ''editing_prompt''] @ map step_field [0..<K + 1],
                   body =
                     map (\<lambda>row.
                            [strip (str_cell shw (row pc)),
                             (case find_column (columns df) editing_candidates of
                                None \<Rightarrow> []
                              | Some c \<Rightarrow>
                                  if row c = NA then [] else strip (str_cell shw (row c)))]
                            @ map (\<lambda>i. case step_source (columns df) i of
                                          None \<Rightarrow> []
                                        | Some c \<Rightarrow>
                                            if row c = NA then []
                                            else resolve_path resolve model_dir
                                                   (str_cell shw (row c)))
                                  [0..<K + 1])
                         (rows df)\<rparr>)))"
proof -
  let ?res = "standardise_model_csv resolve shw model_dir source"
  have bad: "\<exists>msg. standardise_model_csv resolve shw model_dir (Some df) = Inl (ValueError msg)"
    if b: "rows df = [] \<or> find_column (columns df) prompt_candidates = None \<or>
           (\<forall>i. step_source (columns df) i = None)" for df
  proof (cases "rows df = []")
    case True
    then show ?thesis by (simp add: standardise_refuses(2))
  next
    case r: False
    show ?thesis
    proof (cases "find_column (columns df) prompt_candidates = None")
      case True
      with r show ?thesis by (rule standardise_refuses(3))
    next
      case p: False
      with r b have "\<forall>i. step_source (columns df) i = None" by blast
      with r p standardise_refuses(4) [of df resolve shw model_dir] show ?thesis by blast
    qed
  qed
  have good: "\<exists>K. step_source (columns df) K \<noteq> None \<and>
           (\<forall>i. step_source (columns df) i \<noteq> None \<longrightarrow> i \<le> K) \<and>
           standardise_model_csv resolve shw model_dir (Some df) =
             Inr (K,
                  \<lparr>header = [''prompt'', ''editing_prompt''] @ map step_field [0..<K + 1],
                   body =
                     map (\<lambda>row.
                            [strip (str_cell shw (row pc)),
                             (case find_column (columns df) editing_candidates of
                                None \<Rightarrow> []
                              | Some c \<Rightarrow>
                                  if row c = NA then [] else strip (str_cell shw (row c)))]
                            @ map (\<lambda>i. case step_source (columns df) i of
                                          None \<Rightarrow> []
                                        | Some c \<Rightarrow>
                                            if row c = NA then []
                                            else resolve_path resolve model_dir
                                                   (str_cell shw (row c)))
                                  [0..<K + 1])
                         (rows df)\<rparr>)"
    if r: "rows df \<noteq> []" and pc: "find_column (columns df) prompt_candidates = Some pc"
      and s: "step_source (columns df) i0 \<noteq> None" for df pc i0
  proof -
    let ?K = "max_key (step_columns (columns df))"
    from s have sn: "step_columns (columns df) \<noteq> []"
      by (auto simp: step_columns_Nil)
    note hi = max_key_highest [OF sn]
    have val: "standardise_model_csv resolve shw model_dir (Some df) =
             Inr (?K,
                  \<lparr>header = [''prompt'', ''editing_prompt''] @ map step_field [0..<?K + 1],
                   body =
                     map (\<lambda>row.
                            [strip (str_cell shw (row pc)),
                             (case find_column (columns df) editing_candidates of
                                None \<Rightarrow> []
                              | Some c \<Rightarrow>
                                  if row c = NA then [] else strip (str_cell shw (row c)))]
                            @ map (\<lambda>i. case step_source (columns df) i of
                                          None \<Rightarrow> []
                                        | Some c \<Rightarrow>
                                            if row c = NA then []
                                            else resolve_path resolve model_dir
                                                   (str_cell shw (row c)))
                                  [0..<?K + 1])
                         (rows df)\<rparr>)"
      unfolding standardise_accepts [OF r pc s] fieldnames_def editing_cell_def step_cell_def ..
    from hi val show ?thesis by blast
  qed
  show ?thesis
  proof (cases source)
    case None
    then show ?thesis by (simp add: standardise_refuses(1))
  next
    case (Some df)
    let ?bad = "rows df = [] \<or> find_column (columns df) prompt_candidates = None \<or>
                (\<forall>i. step_source (columns df) i = None)"
    show ?thesis
    proof (cases ?bad)
      case True
      from bad [OF True] obtain msg where
        e: "standardise_model_csv resolve shw model_dir (Some df) = Inl (ValueError msg)"
        by blast
      from True have no: "\<not> (rows df \<noteq> [] \<and> find_column (columns df) prompt_candidates \<noteq> None \<and>
          (\<exists>i. step_source (columns df) i \<noteq> None))" by auto
      from Some True e no show ?thesis by auto
    next
      case False
      then obtain pc i0 where h: "rows df \<noteq> []"
        "find_column (columns df) prompt_candidates = Some pc"
        "step_source (columns df) i0 \<noteq> None" by auto
      from good [OF h] obtain K where
        K: "step_source (columns df) K \<noteq> None"
           "\<forall>i. step_source (columns df) i \<noteq> None \<longrightarrow> i \<le> K" and
        v: "standardise_model_csv resolve shw model_dir (Some df) =
             Inr (K,
                  \<lparr>header = [''prompt'', ''editing_prompt''] @ map step_field [0..<K + 1],
                   body =
                     map (\<lambda>row.
                            [strip (str_cell shw (row pc)),
                             (case find_column (columns df) editing_candidates of
                                None \<Rightarrow> []
                              | Some c \<Rightarrow>
                                  if row c = NA then [] else strip (str_cell shw (row c)))]
                            @ map (\<lambda>i. case step_source (columns df) i of
                                          None \<Rightarrow> []
                                        | Some c \<Rightarrow>
                                            if row c = NA then []
                                            else resolve_path resolve model_dir
                                                   (str_cell shw (row c)))
                                  [0..<K + 1])
                         (rows df)\<rparr>)"
        by blast
      have c1: "(\<exists>e. ?res = Inl e) \<longleftrightarrow>
          (source = None \<or>
           (\<exists>df. source = Some df \<and>
              (rows df = [] \<or> find_column (columns df) prompt_candidates = None \<or>
               (\<forall>i. step_source (columns df) i = None))))"
        using Some False v by auto
      have c2: "(\<exists>K out. ?res = Inr (K, out)) \<longleftrightarrow>
          (\<exists>df. source = Some df \<and> rows df \<noteq> [] \<and>
              find_column (columns df) prompt_candidates \<noteq> None \<and>
              (\<exists>i. step_source (columns df) i \<noteq> None))"
        using Some h v by auto
      have c3: "source = None \<longrightarrow> ?res = Inl FileNotFoundError"
        using Some by simp
      have c4: "\<forall>df. source = Some df \<and>
              (rows df = [] \<or> find_column (columns df) prompt_candidates = None \<or>
               (\<forall>i. step_source (columns df) i = None)) \<longrightarrow>
          (\<exists>msg. ?res = Inl (ValueError msg))"
        using Some False by auto
      have c5: "\<forall>df pc. source = Some df \<and> rows df \<noteq> [] \<and>
          find_column (columns df) prompt_candidates = Some pc \<and>
          (\<exists>i. step_source (columns df) i \<noteq> None) \<longrightarrow>
      (\<exists>K. step_source (columns df) K \<noteq> None \<and>
           (\<forall>i. step_source (columns df) i \<noteq> None \<longrightarrow> i \<le> K) \<and>
           ?res =
             Inr (K,
                  \<lparr>header = [''prompt'', ''editing_prompt''] @ map step_field [0..<K + 1],
                   body =
                     map (\<lambda>row.
                            [strip (str_cell shw (row pc)),
                             (case find_column (columns df) editing_candidates of
                                None \<Rightarrow> []
                              | Some c \<Rightarrow>
                                  if row c = NA then [] else strip (str_cell shw (row c)))]
                            @ map (\<lambda>i. case step_source (columns df) i of
                                          None \<Rightarrow> []
                                        | Some c \<Rightarrow>
                                            if row c = NA then []
                                            else resolve_path resolve model_dir
                                                   (str_cell shw (row c)))
                                  [0..<K + 1])
                         (rows df)\<rparr>))"
      proof (intro allI impI)
        fix df' pc'
        assume a: "source = Some df' \<and> rows df' \<noteq> [] \<and>
          find_column (columns df') prompt_candidates = Some pc' \<and>
          (\<exists>i. step_source (columns df') i \<noteq> None)"
        then obtain i1 where h': "rows df' \<noteq> []"
          "find_column (columns df') prompt_candidates = Some pc'"
          "step_source (columns df') i1 \<noteq> None" by blast
        from a Some have eq: "source = Some df'" by simp
        from good [OF h'] show "\<exists>K. step_source (columns df') K \<noteq> None \<and>
           (\<forall>i. step_source (columns df') i \<noteq> None \<longrightarrow> i \<le> K) \<and>
           ?res =
             Inr (K,
                  \<lparr>header = [''prompt'', ''editing_prompt''] @ map step_field [0..<K + 1],
                   body =
                     map (\<lambda>row.
                            [strip (str_cell shw (row pc')),
                             (case find_column (columns df') editing_candidates of
                                None \<Rightarrow> []
                              | Some c \<Rightarrow>
                                  if row c = NA then [] else strip (str_cell shw (row c)))]
                            @ map (\<lambda>i. case step_source (columns df') i of
                                          None \<Rightarrow> []
                                        | Some c \<Rightarrow>
                                            if row c = NA then []
                                            else resolve_path resolve model_dir
                                                   (str_cell shw (row c)))
                                  [0..<K + 1])
                         (rows df')\<rparr>)"
          unfolding eq .
      qed
      from c1 c2 c3 c4 c5 show ?thesis by (intro conjI)
    qed
  qed
qed

theorem standardise_failure_modes_witness:
  "standardise_model_csv fs_resolve str_nat m1_dir None = Inl FileNotFoundError \<and>
   rows header_only_src = [] \<and>
   (\<exists>msg. standardise_model_csv fs_resolve str_nat m1_dir (Some header_only_src)
            = Inl (ValueError msg)) \<and>
   standardise_model_csv fs_resolve str_nat m1_dir (Some header_only_src)
     = Inl (ValueError ''No rows found'') \<and>
   find_column (columns no_prompt_src) prompt_candidates = None \<and>
   (\<exists>msg. standardise_model_csv fs_resolve str_nat m1_dir (Some no_prompt_src)
            = Inl (ValueError msg)) \<and>
   standardise_model_csv fs_resolve str_nat m1_dir (Some no_prompt_src)
     = Inl (ValueError ''Unable to locate prompt column'') \<and>
   step_columns (columns no_step_src) = [] \<and>
   (\<exists>msg. standardise_model_csv fs_resolve str_nat m1_dir (Some no_step_src)
            = Inl (ValueError msg)) \<and>
   standardise_model_csv fs_resolve str_nat m1_dir (Some no_step_src)
     = Inl (ValueError ''No step columns found'') \<and>
   rows three_rows_src \<noteq> [] \<and>
   find_column (columns three_rows_src) prompt_candidates = Some ''text'' \<and>
   step_source (columns three_rows_src) 3 = Some ''step3'' \<and>
   (\<exists>K. step_source (columns three_rows_src) K \<noteq> None \<and>
        (\<forall>i. step_source (columns three_rows_src) i \<noteq> None \<longrightarrow> i \<le> K) \<and>
        standardise_model_csv fs_resolve str_nat m1_dir (Some three_rows_src) =
          Inr (K,
               \<lparr>header = [''prompt'', ''editing_prompt''] @ map step_field [0..<K + 1],
                body =
                  map (\<lambda>row.
                         [strip (str_cell str_nat (row ''text'')),
                          (case find_column (columns three_rows_src) editing_candidates of
                             None \<Rightarrow> []
                           | Some c \<Rightarrow>
                               if row c = NA then [] else strip (str_cell str_nat (row c)))]
                         @ map (\<lambda>i. case step_source (columns three_rows_src) i of
                                       None \<Rightarrow> []
                                     | Some c \<Rightarrow>
                                         if row c = NA then []
                                         else resolve_path fs_resolve m1_dir
                                                (str_cell str_nat (row c)))
                               [0..<K + 1])
                      (rows three_rows_src)\<rparr>)) \<and>
   standardise_model_csv fs_resolve str_nat m1_dir (Some three_rows_src) =
     Inr (3, \<lparr>header = [''prompt'', ''editing_prompt'', ''step0_path'', ''step1_path'',
                         ''step2_path'', ''step3_path''],
              body = [[''one'', ''add snow'', ''/data/m1/0.png'', [], [], ''/data/m1/3.png''],
                      [''two'', [], ''/data/m1/0b.png'', [], [], []],
                      [''3'', [], [], [], [], ''/data/m1/7'']]\<rparr>)"
proof -
  note t = standardise_failure_modes [of fs_resolve str_nat m1_dir]
  have a: "standardise_model_csv fs_resolve str_nat m1_dir None = Inl FileNotFoundError"
    using t [of None] by blast
  have b0: "rows header_only_src = []"
    by (simp add: header_only_src_def)
  have b: "\<exists>msg. standardise_model_csv fs_resolve str_nat m1_dir (Some header_only_src)
            = Inl (ValueError msg)"
    using t [of "Some header_only_src"] b0 by blast
  have bv: "standardise_model_csv fs_resolve str_nat m1_dir (Some header_only_src)
     = Inl (ValueError ''No rows found'')"
    by code_simp
  have c0: "find_column (columns no_prompt_src) prompt_candidates = None"
    by code_simp
  have c: "\<exists>msg. standardise_model_csv fs_resolve str_nat m1_dir (Some no_prompt_src)
            = Inl (ValueError msg)"
    using t [of "Some no_prompt_src"] c0 by blast
  have cv: "standardise_model_csv fs_resolve str_nat m1_dir (Some no_prompt_src)
     = Inl (ValueError ''Unable to locate prompt column'')"
    by code_simp
  have d0: "step_columns (columns no_step_src) = []"
    by code_simp
  then have d1: "\<forall>i. step_source (columns no_step_src) i = None"
    by (simp add: step_columns_Nil)
  have d: "\<exists>msg. standardise_model_csv fs_resolve str_nat m1_dir (Some no_step_src)
            = Inl (ValueError msg)"
    using t [of "Some no_step_src"] d1 by blast
  have dv: "standardise_model_csv fs_resolve str_nat m1_dir (Some no_step_src)
     = Inl (ValueError ''No step columns found'')"
    by code_simp
  have e1: "rows three_rows_src \<noteq> []"
    by (simp add: three_rows_src_def)
  have e2: "find_column (columns three_rows_src) prompt_candidates = Some ''text''"
    by code_simp
  have e3: "step_source (columns three_rows_src) 3 = Some ''step3''"
    by code_simp
  then have e3': "\<exists>i. step_source (columns three_rows_src) i \<noteq> None"
    by (intro exI [of _ 3]) simp
  note t5 = t [of "Some three_rows_src", THEN conjunct2, THEN conjunct2, THEN conjunct2,
      THEN conjunct2, rule_format, of three_rows_src "''text''"]
  have e: "\<exists>K. step_source (columns three_rows_src) K \<noteq> None \<and>
        (\<forall>i. step_source (columns three_rows_src) i \<noteq> None \<longrightarrow> i \<le> K) \<and>
        standardise_model_csv fs_resolve str_nat m1_dir (Some three_rows_src) =
          Inr (K,
               \<lparr>header = [''prompt'', ''editing_prompt''] @ map step_field [0..<K + 1],
                body =
                  map (\<lambda>row.
                         [strip (str_cell str_nat (row ''text'')),
                          (case find_column (columns three_rows_src) editing_candidates of
                             None \<Rightarrow> []
                           | Some c \<Rightarrow>
                               if row c = NA then [] else strip (str_cell str_nat (row c)))]
                         @ map (\<lambda>i. case step_source (columns three_rows_src) i of
                                       None \<Rightarrow> []
                                     | Some c \<Rightarrow>
                                         if row c = NA then []
                                         else resolve_path fs_resolve m1_dir
                                                (str_cell str_nat (row c)))
                               [0..<K + 1])
                      (rows three_rows_src)\<rparr>)"
    by (rule t5) (intro conjI refl e1 e2 e3')
  have ev: "standardise_model_csv fs_resolve str_nat m1_dir (Some three_rows_src) =
     Inr (3, \<lparr>header = [''prompt'', ''editing_prompt'', ''step0_path'', ''step1_path'',
                         ''step2_path'', ''step3_path''],
              body = [[''one'', ''add snow'', ''/data/m1/0.png'', [], [], ''/data/m1/3.png''],
                      [''two'', [], ''/data/m1/0b.png'', [], [], []],
                      [''3'', [], [], [], [], ''/data/m1/7'']]\<rparr>)"
    by code_simp
  from a b0 b bv c0 c cv d0 d dv e1 e2 e3 e ev show ?thesis by (intro conjI)
qed

text \<open>
  Claim C8, as amended: for every source the standardiser accepts, the prompt field
  of each line is the trimmed text of the row's prompt cell, where a missing cell
  reads \<open>nan\<close>. The field is empty exactly when that text is white space only:
  nothing checks the prompt row by row.
\<close>

theorem standardise_prompt_field:
  assumes "rows df \<noteq> []"
    and "find_column (columns df) prompt_candidates = Some pc"
    and "step_source (columns df) i0 \<noteq> None"
  shows "\<exists>K out. standardise_model_csv resolve shw model_dir (Some df) = Inr (K, out) \<and>
           length (body out) = length (rows df) \<and>
           (\<forall>n<length (rows df).
              body out ! n ! 0 = strip (str_cell shw ((rows df ! n) pc)) \<and>
              ((rows df ! n) pc = NA \<longrightarrow> body out ! n ! 0 = ''nan'') \<and>
              (body out ! n ! 0 = [] \<longleftrightarrow>
                 (\<forall>c\<in>set (str_cell shw ((rows df ! n) pc)). is_space c)))"
proof -
  note res = standardise_accepts [OF assms, of resolve shw model_dir]
  have nan: "strip ''nan'' = ''nan''"
    by (simp add: strip_def is_space_def)
  have "body (snd (projr (standardise_model_csv resolve shw model_dir (Some df)))) ! n ! 0
          = strip (str_cell shw ((rows df ! n) pc))"
    if "n < length (rows df)" for n
    unfolding res using that by simp
  moreover have "length (body (snd (projr (standardise_model_csv resolve shw model_dir (Some df)))))
          = length (rows df)"
    unfolding res by simp
  moreover have "\<exists>K out. standardise_model_csv resolve shw model_dir (Some df) = Inr (K, out)"
    unfolding res by blast
  ultimately show ?thesis
    by (auto simp: strip_Nil_iff nan)
qed

theorem standardise_prompt_field_witness:
  "rows blank_prompt_src \<noteq> [] \<and>
   find_column (columns blank_prompt_src) prompt_candidates = Some ''prompt'' \<and>
   step_source (columns blank_prompt_src) 0 \<noteq> None \<and>
   (\<exists>K out. standardise_model_csv fs_resolve str_nat m1_dir (Some blank_prompt_src) = Inr (K, out) \<and>
           length (body out) = length (rows blank_prompt_src) \<and>
           (\<forall>n<length (rows blank_prompt_src).
              body out ! n ! 0 = strip (str_cell str_nat ((rows blank_prompt_src ! n) ''prompt'')) \<and>
              ((rows blank_prompt_src ! n) ''prompt'' = NA \<longrightarrow> body out ! n ! 0 = ''nan'') \<and>
              (body out ! n ! 0 = [] \<longleftrightarrow>
                 (\<forall>c\<in>set (str_cell str_nat ((rows blank_prompt_src ! n) ''prompt'')). is_space c))))"
proof -
  have h1: "rows blank_prompt_src \<noteq> []"
    by (simp add: blank_prompt_src_def)
  have h2: "find_column (columns blank_prompt_src) prompt_candidates = Some ''prompt''"
    by code_simp
  have h3: "step_source (columns blank_prompt_src) 0 \<noteq> None"
    by code_simp
  from h1 h2 h3 standardise_prompt_field [OF h1 h2 h3, of fs_resolve str_nat m1_dir]
  show ?thesis by (intro conjI)
qed

text \<open>
  The claim as first worded fails: the source is accepted, and the line of its
  first row, whose prompt cell holds two blanks, has an empty prompt field.
\<close>

theorem standardise_empty_prompt_counterexample:
  "standardise_model_csv fs_resolve str_nat m1_dir (Some blank_prompt_src) =
     Inr (0, \<lparr>header = [''prompt'', ''editing_prompt'', ''step0_path''],
              body = [[[], [], ''/data/m1/a.png''],
                      [''nan'', [], ''/data/m1/b.png'']]\<rparr>)"
  by code_simp

text \<open>
  Claim C9: the file the standardiser writes has one line for each row of the
  source, no more and no fewer. It writes the file for every source with at least
  one row, a prompt column and a detected step column.
\<close>

theorem standardise_row_count:
  "(\<forall>K out. standardise_model_csv resolve shw model_dir (Some df) = Inr (K, out) \<longrightarrow>
       length (body out) = length (rows df)) \<and>
   (rows df \<noteq> [] \<and> find_column (columns df) prompt_candidates \<noteq> None \<and>
    (\<exists>i. step_source (columns df) i \<noteq> None) \<longrightarrow>
      (\<exists>K out. standardise_model_csv resolve shw model_dir (Some df) = Inr (K, out) \<and>
          length (body out) = length (rows df)))"
proof -
  have acc: "\<exists>K out. standardise_model_csv resolve shw model_dir (Some df) = Inr (K, out) \<and>
          length (body out) = length (rows df)"
    if "rows df \<noteq> []" "find_column (columns df) prompt_candidates \<noteq> None"
       "step_source (columns df) i \<noteq> None" for i
  proof -
    from that(2) obtain pc where pc: "find_column (columns df) prompt_candidates = Some pc"
      by auto
    from standardise_accepts [OF that(1) pc that(3), of resolve shw model_dir]
    show ?thesis by simp
  qed
  have "length (body out) = length (rows df)"
    if r: "standardise_model_csv resolve shw model_dir (Some df) = Inr (K, out)" for K out
  proof -
    have ok: "rows df \<noteq> [] \<and> find_column (columns df) prompt_candidates \<noteq> None \<and>
          (\<exists>i. step_source (columns df) i \<noteq> None)"
      using r by (rule standardise_returns)
    then obtain i where "rows df \<noteq> []" "find_column (columns df) prompt_candidates \<noteq> None"
       "step_source (columns df) i \<noteq> None" by blast
    from acc [OF this] r show ?thesis by auto
  qed
  with acc show ?thesis by blast
qed

theorem standardise_row_count_witness:
  "rows three_rows_src \<noteq> [] \<and>
   find_column (columns three_rows_src) prompt_candidates \<noteq> None \<and>
   step_source (columns three_rows_src) 0 \<noteq> None \<and>
   length (rows three_rows_src) = 3 \<and>
   (\<exists>K out. standardise_model_csv fs_resolve str_nat m1_dir (Some three_rows_src) = Inr (K, out) \<and>
          length (body out) = length (rows three_rows_src)) \<and>
   standardise_model_csv fs_resolve str_nat m1_dir (Some three_rows_src) =
     Inr (3, \<lparr>header = [''prompt'', ''editing_prompt'', ''step0_path'', ''step1_path'',
                         ''step2_path'', ''step3_path''],
              body = [[''one'', ''add snow'', ''/data/m1/0.png'', [], [], ''/data/m1/3.png''],
                      [''two'', [], ''/data/m1/0b.png'', [], [], []],
                      [''3'', [], [], [], [], ''/data/m1/7'']]\<rparr>)"
proof -
  have h1: "rows three_rows_src \<noteq> []"
    by (simp add: three_rows_src_def)
  have h2: "find_column (columns three_rows_src) prompt_candidates \<noteq> None"
    by code_simp
  have h3: "step_source (columns three_rows_src) 0 \<noteq> None"
    by code_simp
  have h4: "length (rows three_rows_src) = 3"
    by (simp add: three_rows_src_def)
  have v: "standardise_model_csv fs_resolve str_nat m1_dir (Some three_rows_src) =
     Inr (3, \<lparr>header = [''prompt'', ''editing_prompt'', ''step0_path'', ''step1_path'',
                         ''step2_path'', ''step3_path''],
              body = [[''one'', ''add snow'', ''/data/m1/0.png'', [], [], ''/data/m1/3.png''],
                      [''two'', [], ''/data/m1/0b.png'', [], [], []],
                      [''3'', [], [], [], [], ''/data/m1/7'']]\<rparr>)"
    by code_simp
  from h3 have h3': "\<exists>i. step_source (columns three_rows_src) i \<noteq> None" by blast
  from standardise_row_count [of fs_resolve str_nat m1_dir three_rows_src] h1 h2 h3'
  have c: "\<exists>K out. standardise_model_csv fs_resolve str_nat m1_dir (Some three_rows_src) = Inr (K, out) \<and>
          length (body out) = length (rows three_rows_src)"
    by blast
  from h1 h2 h3 h4 c v show ?thesis by (intro conjI)
qed

section \<open>Properties of the summariser\<close>

subsection \<open>Coercion\<close>

lemma to_numeric_idem: "to_numeric num (to_numeric num c) = to_numeric num c"
  by (cases c) (auto simp: to_numeric_def split: option.splits)

text \<open>The row after the columns \<open>cs\<close> went through \<open>to_numeric\<close>.\<close>

lemma coerce_columns_Inr:
  "set cs \<subseteq> set (columns df) \<Longrightarrow>
     coerce_columns num cs df =
       Inr (df\<lparr>rows := map (\<lambda>r c. if c \<in> set cs then to_numeric num (r c) else r c) (rows df)\<rparr>)"
proof (induction cs arbitrary: df)
  case Nil
  show ?case by simp
next
  case (Cons a cs)
  let ?df' = "df\<lparr>rows := map (\<lambda>r. r(a := to_numeric num (r a))) (rows df)\<rparr>"
  from Cons.prems have 1: "coerce_column num a df = Inr ?df'"
    by (simp add: coerce_column_def)
  from Cons.prems have "set cs \<subseteq> set (columns ?df')" by simp
  from Cons.IH [OF this]
  have 2: "coerce_columns num cs ?df' =
       Inr (?df'\<lparr>rows := map (\<lambda>r c. if c \<in> set cs then to_numeric num (r c) else r c)
                              (rows ?df')\<rparr>)" .
  have 3: "(\<lambda>c. if c \<in> set cs then to_numeric num ((r(a := to_numeric num (r a))) c)
                 else (r(a := to_numeric num (r a))) c)
           = (\<lambda>c. if c \<in> set (a # cs) then to_numeric num (r c) else r c)" for r
    by (rule ext) (simp add: to_numeric_idem)
  show ?case
    unfolding coerce_columns.simps 1 sum.case 2
    by (simp add: comp_def 3)
qed

lemma coerce_columns_Inl:
  "\<not> set cs \<subseteq> set (columns df) \<Longrightarrow>
     \<exists>k. List.find (\<lambda>c. c \<notin> set (columns df)) cs = Some k \<and>
         coerce_columns num cs df = Inl (KeyError k)"
proof (induction cs arbitrary: df)
  case Nil
  then show ?case by simp
next
  case (Cons a cs)
  show ?case
  proof (cases "a \<in> set (columns df)")
    case False
    then show ?thesis by (simp add: coerce_column_def)
  next
    case True
    let ?df' = "df\<lparr>rows := map (\<lambda>r. r(a := to_numeric num (r a))) (rows df)\<rparr>"
    from True have 1: "coerce_column num a df = Inr ?df'"
      by (simp add: coerce_column_def)
    from True Cons.prems have "\<not> set cs \<subseteq> set (columns ?df')" by simp
    from Cons.IH [OF this] True show ?thesis
      unfolding coerce_columns.simps 1 sum.case by simp
  qed
qed

text \<open>The rows of the table the groups are formed on.\<close>

lemma coerced_rows:
  assumes "set numeric_cols \<subseteq> set (columns df)"
  shows "\<exists>df1. coerce_columns num numeric_cols df = Inr df1 \<and>
           set (columns df) \<subseteq> set (columns (coerce_num_questions num df1)) \<and>
           rows (coerce_num_questions num df1) =
             map (\<lambda>r c. if c = ''num_questions''
                        then (if ''num_questions'' \<in> set (columns df)
                              then to_numeric num (r c) else NA)
                        else if c \<in> set numeric_cols then to_numeric num (r c) else r c)
                 (rows df)"
proof -
  let ?df1 = "df\<lparr>rows := map (\<lambda>r c. if c \<in> set numeric_cols then to_numeric num (r c) else r c)
                              (rows df)\<rparr>"
  have 1: "coerce_columns num numeric_cols df = Inr ?df1"
    using assms by (rule coerce_columns_Inr)
  have nq: "''num_questions'' \<notin> set numeric_cols"
    by (simp add: numeric_cols_def)
  have 2: "rows (coerce_num_questions num ?df1) =
             map (\<lambda>r c. if c = ''num_questions''
                        then (if ''num_questions'' \<in> set (columns df)
                              then to_numeric num (r c) else NA)
                        else if c \<in> set numeric_cols then to_numeric num (r c) else r c)
                 (rows df)"
    by (auto simp: coerce_num_questions_def comp_def fun_eq_iff nq)
  have 3: "set (columns df) \<subseteq> set (columns (coerce_num_questions num ?df1))"
    by (auto simp: coerce_num_questions_def)
  from 1 2 3 show ?thesis by blast
qed

subsection \<open>The first row with the extreme value\<close>

lemma idx_scan_snoc:
  "idx_scan b g (rs @ [r]) i acc = idx_step b g r (i + length rs) (idx_scan b g rs i acc)"
  by (induction rs arbitrary: i acc) simp_all

lemma has_value_snoc:
  "has_value (rs @ [r]) g k v \<longleftrightarrow>
     has_value rs g k v \<or> (k = length rs \<and> r ''group_id'' = g \<and> r ''f1'' = Num v)"
  by (auto simp: has_value_def nth_append)

lemma has_value_less: "has_value rs g k v \<Longrightarrow> k < length rs"
  by (simp add: has_value_def)

text \<open>
  The scan keeps the first row whose value no row of the group beats, for any
  strict linear order \<open>b\<close> (\<open>b v w\<close>: \<open>v\<close> is better than \<open>w\<close>).
\<close>

lemma idx_scan_first:
  assumes irr: "\<And>a. \<not> b a a"
    and tr: "\<And>a c d. b a c \<Longrightarrow> b c d \<Longrightarrow> b a d"
    and tot: "\<And>a c. a \<noteq> c \<Longrightarrow> b a c \<or> b c a"
  shows "case idx_scan b g rs 0 None of
           None \<Rightarrow> \<forall>k v. \<not> has_value rs g k v
         | Some (m, v) \<Rightarrow>
             has_value rs g m v \<and>
             (\<forall>k w. has_value rs g k w \<longrightarrow> \<not> b w v \<and> (k < m \<longrightarrow> b v w))"
proof (induction rs rule: rev_induct)
  case Nil
  show ?case by (simp add: has_value_def)
next
  case (snoc r rs)
  let ?old = "idx_scan b g rs 0 None"
  let ?n = "length rs"
  have new: "idx_scan b g (rs @ [r]) 0 None = idx_step b g r ?n ?old"
    by (simp add: idx_scan_snoc)
  show ?case
  proof (cases "\<exists>v. r ''group_id'' = g \<and> r ''f1'' = Num v")
    case False
    then have same: "idx_step b g r ?n ?old = ?old"
      by (cases "r ''f1''") (auto simp: idx_step_def)
    from False have hv: "has_value (rs @ [r]) g k v \<longleftrightarrow> has_value rs g k v" for k v
      by (auto simp: has_value_snoc)
    from snoc.IH show ?thesis
      unfolding new same hv .
  next
    case True
    then obtain v where rg: "r ''group_id'' = g" and rv: "r ''f1'' = Num v" by blast
    have hv: "has_value (rs @ [r]) g k w \<longleftrightarrow> has_value rs g k w \<or> (k = ?n \<and> w = v)" for k w
      using rg rv by (auto simp: has_value_snoc)
    show ?thesis
    proof (cases ?old)
      case None
      with snoc.IH have none: "\<forall>k w. \<not> has_value rs g k w" by simp
      from None rg rv have res: "idx_step b g r ?n ?old = Some (?n, v)"
        by (simp add: idx_step_def)
      show ?thesis
        unfolding new res using none irr by (simp add: hv)
    next
      case (Some mw)
      obtain m w where mw: "mw = (m, w)" by (cases mw)
      from snoc.IH Some mw
      have ih: "has_value rs g m w"
        "\<forall>k u. has_value rs g k u \<longrightarrow> \<not> b u w \<and> (k < m \<longrightarrow> b w u)"
        by simp_all
      have m: "m < ?n" using ih(1) by (rule has_value_less)
      show ?thesis
      proof (cases "b v w")
        case True
        with Some mw rg rv have res: "idx_step b g r ?n ?old = Some (?n, v)"
          by (simp add: idx_step_def)
        have "\<not> b u v \<and> (k < ?n \<longrightarrow> b v u)" if h: "has_value rs g k u" for k u
        proof
          from ih(2) h have nb: "\<not> b u w" by blast
          show "\<not> b u v"
          proof
            assume "b u v"
            then have "b u w" using True by (rule tr)
            with nb show False ..
          qed
          show "k < ?n \<longrightarrow> b v u"
          proof (cases "u = w")
            case True
            with \<open>b v w\<close> show ?thesis by simp
          next
            case False
            with tot [of u w] nb have "b w u" by blast
            with \<open>b v w\<close> have "b v u" by (rule tr)
            then show ?thesis ..
          qed
        qed
        then show ?thesis
          unfolding new res using irr by (auto simp: hv)
      next
        case False
        with Some mw rg rv have res: "idx_step b g r ?n ?old = Some (m, w)"
          by (simp add: idx_step_def)
        show ?thesis
          unfolding new res using ih False m by (auto simp: hv)
      qed
    qed
  qed
qed

lemma idxmax_first:
  fixes df :: "('v::linorder) frame"
  shows "case idxmax df g of
           None \<Rightarrow> \<forall>k v. \<not> has_value (rows df) g k v
         | Some m \<Rightarrow>
             \<exists>v. has_value (rows df) g m v \<and>
                 (\<forall>k w. has_value (rows df) g k w \<longrightarrow> w \<le> v \<and> (k < m \<longrightarrow> w < v))"
proof -
  have "case idx_scan (\<lambda>v w. w < v) g (rows df) 0 None of
           None \<Rightarrow> \<forall>k v. \<not> has_value (rows df) g k v
         | Some (m, v) \<Rightarrow>
             has_value (rows df) g m v \<and>
             (\<forall>k w. has_value (rows df) g k w \<longrightarrow> \<not> v < w \<and> (k < m \<longrightarrow> w < v))"
    by (rule idx_scan_first) auto
  then show ?thesis
    unfolding idxmax_def
    by (cases "idx_scan (\<lambda>v w. w < v) g (rows df) 0 None") (auto simp: not_less)
qed

lemma idxmin_first:
  fixes df :: "('v::linorder) frame"
  shows "case idxmin df g of
           None \<Rightarrow> \<forall>k v. \<not> has_value (rows df) g k v
         | Some m \<Rightarrow>
             \<exists>v. has_value (rows df) g m v \<and>
                 (\<forall>k w. has_value (rows df) g k w \<longrightarrow> v \<le> w \<and> (k < m \<longrightarrow> v < w))"
proof -
  have "case idx_scan (\<lambda>v w. v < w) g (rows df) 0 None of
           None \<Rightarrow> \<forall>k v. \<not> has_value (rows df) g k v
         | Some (m, v) \<Rightarrow>
             has_value (rows df) g m v \<and>
             (\<forall>k w. has_value (rows df) g k w \<longrightarrow> \<not> w < v \<and> (k < m \<longrightarrow> v < w))"
    by (rule idx_scan_first) auto
  then show ?thesis
    unfolding idxmin_def
    by (cases "idx_scan (\<lambda>v w. v < w) g (rows df) 0 None") (auto simp: not_less)
qed

lemma idxmax_None_iff:
  fixes df :: "('v::linorder) frame"
  shows "idxmax df g = None \<longleftrightarrow> (\<forall>k v. \<not> has_value (rows df) g k v)"
  using idxmax_first [of df g] by (cases "idxmax df g") auto

lemma idxmin_None_iff:
  fixes df :: "('v::linorder) frame"
  shows "idxmin df g = None \<longleftrightarrow> (\<forall>k v. \<not> has_value (rows df) g k v)"
  using idxmin_first [of df g] by (cases "idxmin df g") auto

subsection \<open>Groups, labels and the join\<close>

lemma group_keys_distinct: "distinct (group_keys df)"
  by (simp add: group_keys_def)


lemma dropna_map:
  "dropna (map f xs) = map (\<lambda>x. the (f x)) (filter (\<lambda>x. f x \<noteq> None) xs)"
  by (induction xs) (auto simp: dropna_def map_filter_simps split: option.splits)

lemma distinct_filter_eq: "distinct ks \<Longrightarrow> g \<in> set ks \<Longrightarrow> filter (\<lambda>x. x = g) ks = [g]"
proof (induction ks)
  case Nil
  then show ?case by simp
next
  case (Cons a ks)
  show ?case
  proof (cases "a = g")
    case True
    with Cons.prems have "g \<notin> set ks" by simp
    then have "filter (\<lambda>x. x = g) ks = []" by (auto simp: filter_empty_conv)
    with True show ?thesis by simp
  next
    case False
    with Cons show ?thesis by simp
  qed
qed

lemma partner_rows:
  assumes d: "distinct ks" and g: "g \<in> set ks"
    and R: "\<And>h. h \<in> set ks \<Longrightarrow> R h rk = h"
  shows "filter (\<lambda>r. r rk = g) (map R ks) = [R g]"
proof -
  have "filter (\<lambda>r. r rk = g) (map R ks) = map R (filter (\<lambda>h. R h rk = g) ks)"
    by (simp add: filter_map comp_def)
  also have "filter (\<lambda>h. R h rk = g) ks = filter (\<lambda>h. h = g) ks"
    by (rule filter_cong [OF refl]) (simp add: R)
  also have "\<dots> = [g]" using d g by (rule distinct_filter_eq)
  finally show ?thesis by simp
qed

text \<open>The join of two tables that hold one row for each key of the same list.\<close>

lemma merge_keyed:
  assumes d: "distinct ks"
    and L: "\<And>h. h \<in> set ks \<Longrightarrow> L h lk = h"
    and R: "\<And>h. h \<in> set ks \<Longrightarrow> R h rk = h"
  shows "rows (merge_outer \<lparr>columns = lc, rows = map L ks\<rparr> \<lparr>columns = rc, rows = map R ks\<rparr> lk rk)
           = map (\<lambda>g. join_row lc (L g) (R g)) ks"
proof -
  have pair: "map (join_row lc (L g)) (filter (\<lambda>r. r rk = L g lk) (map R ks))
                = [join_row lc (L g) (R g)]" if "g \<in> set ks" for g
    using partner_rows [of ks g R rk, OF d that R] that by (simp add: L)
  have "concat (map (\<lambda>l. map (join_row lc l) (filter (\<lambda>r. r rk = l lk) (map R ks))) (map L ks))
          = concat (map (\<lambda>g. [join_row lc (L g) (R g)]) ks)"
    unfolding map_map comp_def
    by (rule arg_cong [where f = concat], rule map_cong [OF refl]) (simp add: pair)
  also have "\<dots> = map (\<lambda>g. join_row lc (L g) (R g)) ks"
    by (induction ks) simp_all
  finally have matched:
    "concat (map (\<lambda>l. map (join_row lc l) (filter (\<lambda>r. r rk = l lk) (map R ks))) (map L ks))
       = map (\<lambda>g. join_row lc (L g) (R g)) ks" .
  have left: "filter (\<lambda>l. \<not> (\<exists>r\<in>set (map R ks). r rk = l lk)) (map L ks) = []"
  proof -
    have "\<exists>r\<in>set (map R ks). r rk = L g lk" if "g \<in> set ks" for g
      using that by (intro bexI [of _ "R g"]) (simp_all add: L R)
    then show ?thesis by (auto simp: filter_empty_conv)
  qed
  have right: "filter (\<lambda>r. \<not> (\<exists>l\<in>set (map L ks). r rk = l lk)) (map R ks) = []"
  proof -
    have "\<exists>l\<in>set (map L ks). R g rk = l lk" if "g \<in> set ks" for g
      using that by (intro bexI [of _ "L g"]) (simp_all add: L R)
    then show ?thesis by (auto simp: filter_empty_conv)
  qed
  show ?thesis
    unfolding merge_outer_def
    by (simp only: frame.select_convs matched left right list.map append_Nil2)
qed

subsection \<open>The record of a group\<close>




lemma summarize_explicit:
  fixes df :: "('v::linorder) frame"
  assumes num: "set numeric_cols \<subseteq> set (columns df)"
    and gid: "''group_id'' \<in> set (columns df)"
    and ne: "rows df \<noteq> []"
  shows "\<exists>df2 t. rows df2 = map (coerced_row num (columns df)) (rows df) \<and>
           set (columns df) \<subseteq> set (columns df2) \<and>
           summarize_best_worst num df = Inr (Some t) \<and>
           rows t = map (\<lambda>g. joined_record (columns df2)
                               (rows df2 ! the (idxmax df2 g)) (rows df2 ! the (idxmin df2 g)))
                        (filter (\<lambda>g. idxmax df2 g \<noteq> None) (group_keys df2))"
proof -
  from coerced_rows [OF num, of num] obtain df1 where
    c1: "coerce_columns num numeric_cols df = Inr df1" and
    cols2: "set (columns df) \<subseteq> set (columns (coerce_num_questions num df1))" and
    rows2: "rows (coerce_num_questions num df1) =
             map (\<lambda>r c. if c = ''num_questions''
                        then (if ''num_questions'' \<in> set (columns df)
                              then to_numeric num (r c) else NA)
                        else if c \<in> set numeric_cols then to_numeric num (r c) else r c)
                 (rows df)"
    by blast
  define df2 where "df2 = coerce_num_questions num df1"
  define ks where "ks = filter (\<lambda>g. idxmax df2 g \<noteq> None) (group_keys df2)"
  define bi where "bi = (\<lambda>g. the (idxmax df2 g))"
  define wi where "wi = (\<lambda>g. the (idxmin df2 g))"
  define L where "L = (\<lambda>g. prefix_row ''best_'' (rows df2 ! bi g))"
  define R where "R = (\<lambda>g. prefix_row ''worst_'' (rows df2 ! wi g))"
  define lc where "lc = map (\<lambda>c. ''best_'' @ c) (columns df2)"
  define rc where "rc = map (\<lambda>c. ''worst_'' @ c) (columns df2)"
  have r2: "rows df2 = map (coerced_row num (columns df)) (rows df)"
    unfolding df2_def rows2 coerced_row_def ..
  have g2: "''group_id'' \<in> set (columns df2)"
    using gid cols2 unfolding df2_def by blast
  have dks: "distinct ks"
    unfolding ks_def by (simp add: group_keys_distinct)
  have ks_min: "filter (\<lambda>g. idxmin df2 g \<noteq> None) (group_keys df2) = ks"
    unfolding ks_def by (simp add: idxmax_None_iff idxmin_None_iff)
  have bidx: "dropna (map (idxmax df2) (group_keys df2)) = map bi ks"
    by (simp add: dropna_map ks_def bi_def)
  have widx: "dropna (map (idxmin df2) (group_keys df2)) = map wi ks"
    unfolding ks_min [symmetric] by (simp add: dropna_map wi_def)
  have bv: "\<exists>v. has_value (rows df2) g (bi g) v" if "g \<in> set ks" for g
  proof -
    from that obtain m where m: "idxmax df2 g = Some m" by (auto simp: ks_def)
    with idxmax_first [of df2 g] show ?thesis by (auto simp: bi_def)
  qed
  have wv: "\<exists>v. has_value (rows df2) g (wi g) v" if "g \<in> set ks" for g
  proof -
    from that have "idxmin df2 g \<noteq> None"
      unfolding ks_min [symmetric] by simp
    then obtain m where m: "idxmin df2 g = Some m" by auto
    with idxmin_first [of df2 g] show ?thesis by (auto simp: wi_def)
  qed
  have locb: "loc df2 (map bi ks) = Inr (df2\<lparr>rows := map (\<lambda>i. rows df2 ! i) (map bi ks)\<rparr>)"
    using bv by (auto simp: loc_def dest: has_value_less)
  have locw: "loc df2 (map wi ks) = Inr (df2\<lparr>rows := map (\<lambda>i. rows df2 ! i) (map wi ks)\<rparr>)"
    using wv by (auto simp: loc_def dest: has_value_less)
  have best: "add_prefix ''best_'' (df2\<lparr>rows := map (\<lambda>i. rows df2 ! i) (map bi ks)\<rparr>)
                = \<lparr>columns = lc, rows = map L ks\<rparr>"
    by (simp add: add_prefix_def L_def lc_def comp_def)
  have worst: "add_prefix ''worst_'' (df2\<lparr>rows := map (\<lambda>i. rows df2 ! i) (map wi ks)\<rparr>)
                = \<lparr>columns = rc, rows = map R ks\<rparr>"
    by (simp add: add_prefix_def R_def rc_def comp_def)
  have Lk: "L g ''best_group_id'' = g" if "g \<in> set ks" for g
    using bv [OF that] by (auto simp: L_def prefix_row_def has_value_def)
  have Rk: "R g ''worst_group_id'' = g" if "g \<in> set ks" for g
    using wv [OF that] by (auto simp: R_def prefix_row_def has_value_def)
  let ?m = "merge_outer \<lparr>columns = lc, rows = map L ks\<rparr> \<lparr>columns = rc, rows = map R ks\<rparr>
              ''best_group_id'' ''worst_group_id''"
  have mrows: "rows ?m = map (\<lambda>g. join_row lc (L g) (R g)) ks"
    using dks Lk Rk by (rule merge_keyed)
  have mcols: "columns ?m = lc @ rc"
    by (simp add: merge_outer_def)
  have bcol: "''best_group_id'' \<in> set (columns ?m)"
    unfolding mcols using g2 by (auto simp: lc_def image_iff)
  let ?r = "rename_column ''best_group_id'' ''group_id'' ?m"
  have rcols: "''worst_group_id'' \<in> set (columns ?r)"
  proof -
    have "''worst_group_id'' \<in> set (lc @ rc)"
      using g2 by (auto simp: rc_def image_iff)
    then have "''worst_group_id'' \<in>
        set (map (\<lambda>c. if c = ''best_group_id'' then ''group_id'' else c) (lc @ rc))"
      by (auto simp: image_iff)
    with bcol show ?thesis
      by (simp only: rename_column_def mcols if_True frame.select_convs)
  qed
  have rrows: "rows ?r = map (\<lambda>r. (r(''group_id'' := r ''best_group_id''))(''best_group_id'' := NA))
                            (rows ?m)"
    using bcol by (simp add: rename_column_def)
  let ?t = "drop_column ''worst_group_id'' ?r"
  have trows: "rows ?t = map (\<lambda>g. joined_record (columns df2) (rows df2 ! bi g) (rows df2 ! wi g)) ks"
  proof -
    have "rows ?t = map (\<lambda>r. r(''worst_group_id'' := NA)) (rows ?r)"
      by (simp add: drop_column_def)
    also have "\<dots> = map (\<lambda>r. r(''worst_group_id'' := NA))
        (map (\<lambda>r. (r(''group_id'' := r ''best_group_id''))(''best_group_id'' := NA))
           (map (\<lambda>g. join_row lc (L g) (R g)) ks))"
      unfolding rrows mrows ..
    also have "\<dots> = map (\<lambda>g. joined_record (columns df2) (rows df2 ! bi g) (rows df2 ! wi g)) ks"
      by (simp add: comp_def joined_record_def Let_def L_def R_def lc_def)
    finally show ?thesis .
  qed
  have nonempty: "\<not> (empty df \<or> ''group_id'' \<notin> set (columns df))"
    using gid ne by (auto simp: empty_def)
  have "summarize_best_worst num df = Inr (Some ?t)"
    unfolding summarize_best_worst_def
    using nonempty
    by (simp only: if_False c1 sum.case Let_def df2_def [symmetric] bidx widx locb locw
        best worst rcols if_True)
  with r2 cols2 trows show ?thesis
    unfolding df2_def [symmetric] bi_def wi_def ks_def by blast
qed

subsection \<open>The claims about the summariser\<close>








text \<open>
  Claim C7: on a table that is empty or lacks a \<open>group_id\<close> column the
  summariser returns without an error and writes nothing, and on no other table
  does it return without writing. The driver then goes on to its next model: the
  step of the model ends without an error.
\<close>

theorem summarize_nothing_to_do:
  fixes df :: "('v::linorder) frame"
  shows "(summarize_best_worst num df = Inr None \<longleftrightarrow>
            empty df \<or> ''group_id'' \<notin> set (columns df)) \<and>
         ((empty (summary m) \<or> ''group_id'' \<notin> set (columns (summary m))) \<and>
          (\<not> cached m \<or> force) \<and> scorer_ok m \<longrightarrow>
            cultural_step num force m =
              ([Score (name m), Summarize (name m) (Inr None)], None))"
proof
  show "summarize_best_worst num df = Inr None \<longleftrightarrow>
            empty df \<or> ''group_id'' \<notin> set (columns df)"
  proof (cases "empty df \<or> ''group_id'' \<notin> set (columns df)")
    case True
    then show ?thesis by (simp add: summarize_best_worst_def)
  next
    case False
    then have g: "''group_id'' \<in> set (columns df)" and r: "rows df \<noteq> []"
      by (auto simp: empty_def)
    have "summarize_best_worst num df \<noteq> Inr None"
    proof (cases "set numeric_cols \<subseteq> set (columns df)")
      case True
      from summarize_explicit [OF True g r, of num] show ?thesis by auto
    next
      case missing: False
      from coerce_columns_Inl [OF missing, of num] obtain k where
        "coerce_columns num numeric_cols df = Inl (KeyError k)" by blast
      with False show ?thesis by (simp add: summarize_best_worst_def)
    qed
    with False show ?thesis by simp
  qed
next
  show "(empty (summary m) \<or> ''group_id'' \<notin> set (columns (summary m))) \<and>
          (\<not> cached m \<or> force) \<and> scorer_ok m \<longrightarrow>
            cultural_step num force m =
              ([Score (name m), Summarize (name m) (Inr None)], None)"
    by (auto simp: cultural_step_def summarize_best_worst_def)
qed

theorem summarize_nothing_to_do_witness:
  "empty no_metrics_src \<and>
   summarize_best_worst no_num no_metrics_src = Inr None \<and>
   ''group_id'' \<notin> set (columns no_group_src) \<and>
   summarize_best_worst no_num no_group_src = Inr None \<and>
   \<not> cached fresh_model \<and> scorer_ok fresh_model \<and>
   cultural_step no_num False fresh_model =
     ([Score (name fresh_model), Summarize (name fresh_model) (Inr None)], None)"
proof -
  note t = summarize_nothing_to_do [of no_num _ _ False]
  have e: "empty no_metrics_src"
    by (simp add: empty_def no_metrics_src_def)
  from t [of no_metrics_src, THEN conjunct1] e
  have 1: "summarize_best_worst no_num no_metrics_src = Inr None" by blast
  have g: "''group_id'' \<notin> set (columns no_group_src)"
    by (simp add: no_group_src_def)
  from t [of no_group_src, THEN conjunct1] g
  have 2: "summarize_best_worst no_num no_group_src = Inr None" by blast
  have f: "\<not> cached fresh_model" "scorer_ok fresh_model"
    "''group_id'' \<notin> set (columns (summary fresh_model))"
    by (simp_all add: fresh_model_def no_group_src_def)
  from t [of no_group_src fresh_model, THEN conjunct2] f
  have 3: "cultural_step no_num False fresh_model =
     ([Score (name fresh_model), Summarize (name fresh_model) (Inr None)], None)"
    by blast
  from e 1 g 2 f(1,2) 3 show ?thesis by (intro conjI)
qed

text \<open>
  Claim C10: a table that is not empty and has the columns \<open>group_id\<close> and
  \<open>f1\<close> but lacks one of \<open>accuracy\<close>, \<open>precision\<close>, \<open>recall\<close> makes
  the summariser raise \<open>KeyError\<close> on the first of these it lacks, and nothing is
  written; the summariser raises on a table with rows and \<open>group_id\<close> exactly
  when one of the four metric columns is missing.
\<close>

theorem summarize_requires_metric_columns:
  fixes df :: "('v::linorder) frame"
  assumes r: "rows df \<noteq> []" and g: "''group_id'' \<in> set (columns df)"
  shows "((\<exists>e. summarize_best_worst num df = Inl e) \<longleftrightarrow>
            \<not> set [''accuracy'', ''precision'', ''recall'', ''f1''] \<subseteq> set (columns df)) \<and>
         (''f1'' \<in> set (columns df) \<and>
          \<not> set [''accuracy'', ''precision'', ''recall''] \<subseteq> set (columns df) \<longrightarrow>
            (\<exists>k. List.find (\<lambda>c. c \<notin> set (columns df)) [''accuracy'', ''precision'', ''recall'']
                    = Some k \<and>
                 summarize_best_worst num df = Inl (KeyError k)))"
proof -
  have ne: "\<not> (empty df \<or> ''group_id'' \<notin> set (columns df))"
    using r g by (auto simp: empty_def)
  have all: "\<exists>t. summarize_best_worst num df = Inr (Some t)"
    if "set numeric_cols \<subseteq> set (columns df)"
    using summarize_explicit [OF that g r, of num] by blast
  have some: "\<exists>k. List.find (\<lambda>c. c \<notin> set (columns df)) numeric_cols = Some k \<and>
                  summarize_best_worst num df = Inl (KeyError k)"
    if "\<not> set numeric_cols \<subseteq> set (columns df)"
  proof -
    from coerce_columns_Inl [OF that, of num] obtain k where
      k: "List.find (\<lambda>c. c \<notin> set (columns df)) numeric_cols = Some k"
         "coerce_columns num numeric_cols df = Inl (KeyError k)" by blast
    from k(2) ne have "summarize_best_worst num df = Inl (KeyError k)"
      by (simp add: summarize_best_worst_def)
    with k(1) show ?thesis by blast
  qed
  have 1: "(\<exists>e. summarize_best_worst num df = Inl e) \<longleftrightarrow>
            \<not> set [''accuracy'', ''precision'', ''recall'', ''f1''] \<subseteq> set (columns df)"
    using all some unfolding numeric_cols_def by (metis Inl_Inr_False)
  have 2: "\<exists>k. List.find (\<lambda>c. c \<notin> set (columns df)) [''accuracy'', ''precision'', ''recall'']
                    = Some k \<and>
                 summarize_best_worst num df = Inl (KeyError k)"
    if f: "''f1'' \<in> set (columns df)"
      and m: "\<not> set [''accuracy'', ''precision'', ''recall''] \<subseteq> set (columns df)"
  proof -
    from m have "\<not> set numeric_cols \<subseteq> set (columns df)"
      by (auto simp: numeric_cols_def)
    from some [OF this] obtain k where
      k: "List.find (\<lambda>c. c \<notin> set (columns df)) numeric_cols = Some k"
         "summarize_best_worst num df = Inl (KeyError k)" by blast
    from k(1) f have "List.find (\<lambda>c. c \<notin> set (columns df)) [''accuracy'', ''precision'', ''recall'']
                    = Some k"
      by (auto simp: numeric_cols_def split: if_splits)
    with k(2) show ?thesis by blast
  qed
  from 1 2 show ?thesis by blast
qed

theorem summarize_requires_metric_columns_witness:
  "rows no_precision_src \<noteq> [] \<and>
   ''group_id'' \<in> set (columns no_precision_src) \<and>
   ''f1'' \<in> set (columns no_precision_src) \<and>
   \<not> set [''accuracy'', ''precision'', ''recall''] \<subseteq> set (columns no_precision_src) \<and>
   (\<exists>k. List.find (\<lambda>c. c \<notin> set (columns no_precision_src)) [''accuracy'', ''precision'', ''recall'']
           = Some k \<and>
        summarize_best_worst no_num no_precision_src = Inl (KeyError k)) \<and>
   summarize_best_worst no_num no_precision_src = Inl (KeyError ''precision'')"
proof -
  have h1: "rows no_precision_src \<noteq> []"
    by (simp add: no_precision_src_def)
  have h2: "''group_id'' \<in> set (columns no_precision_src)"
    by (simp add: no_precision_src_def)
  have h3: "''f1'' \<in> set (columns no_precision_src)"
    by (simp add: no_precision_src_def)
  have h4: "\<not> set [''accuracy'', ''precision'', ''recall''] \<subseteq> set (columns no_precision_src)"
    by (simp add: no_precision_src_def)
  have f: "List.find (\<lambda>c. c \<notin> set (columns no_precision_src)) [''accuracy'', ''precision'', ''recall'']
             = Some ''precision''"
    by (simp add: no_precision_src_def)
  from summarize_requires_metric_columns [OF h1 h2, of no_num] h3 h4
  have e: "\<exists>k. List.find (\<lambda>c. c \<notin> set (columns no_precision_src)) [''accuracy'', ''precision'', ''recall'']
           = Some k \<and>
        summarize_best_worst no_num no_precision_src = Inl (KeyError k)"
    by blast
  with f have v: "summarize_best_worst no_num no_precision_src = Inl (KeyError ''precision'')"
    by simp
  from h1 h2 h3 h4 e v show ?thesis by (intro conjI)
qed

section \<open>Properties of the driver\<close>

lemma step_summarize:
  "Summarize n r \<in> set (fst (cultural_step num force m)) \<longleftrightarrow>
     n = name m \<and> (\<not> cached m \<or> force) \<and> scorer_ok m \<and>
     r = summarize_best_worst num (summary m)"
  by (cases "summarize_best_worst num (summary m)") (auto simp: cultural_step_def)

lemma step_score:
  "Score n \<in> set (fst (cultural_step num force m)) \<longleftrightarrow> n = name m \<and> (\<not> cached m \<or> force)"
  by (cases "summarize_best_worst num (summary m)") (auto simp: cultural_step_def)

lemma loop_events:
  "e \<in> set (fst (cultural_loop num force ms)) \<Longrightarrow>
     \<exists>m\<in>set ms. e \<in> set (fst (cultural_step num force m))"
proof (induction ms)
  case Nil
  then show ?case by simp
next
  case (Cons m ms)
  obtain es f where s: "cultural_step num force m = (es, f)" by (cases "cultural_step num force m")
  obtain es' r where l: "cultural_loop num force ms = (es', r)"
    by (cases "cultural_loop num force ms")
  show ?case
  proof (cases f)
    case None
    with Cons.prems s l have "e \<in> set es \<or> e \<in> set es'" by simp
    with Cons.IH s l show ?thesis by auto
  next
    case (Some a)
    with Cons.prems s have "e \<in> set es" by simp
    with s show ?thesis by auto
  qed
qed

lemma loop_complete:
  "snd (cultural_loop num force ms) = None \<Longrightarrow> m \<in> set ms \<Longrightarrow>
     set (fst (cultural_step num force m)) \<subseteq> set (fst (cultural_loop num force ms))"
proof (induction ms)
  case Nil
  then show ?case by simp
next
  case (Cons a ms)
  obtain es f where s: "cultural_step num force a = (es, f)" by (cases "cultural_step num force a")
  obtain es' r where l: "cultural_loop num force ms = (es', r)"
    by (cases "cultural_loop num force ms")
  from Cons.prems(1) s l have f: "f = None" by (cases f) simp_all
  with Cons.prems(1) s l have r: "r = None" by simp
  have all: "fst (cultural_loop num force (a # ms)) = es @ es'"
    using s l f by simp
  show ?case
  proof (cases "m = a")
    case True
    with s all show ?thesis by simp
  next
    case False
    with Cons.prems(2) have "m \<in> set ms" by simp
    with Cons.IH l r have "set (fst (cultural_step num force m)) \<subseteq> set es'" by simp
    with all show ?thesis by auto
  qed
qed

text \<open>
  Claim C5, as amended: with the cultural metrics not skipped, the summariser is
  called for a model exactly when the cultural scorer was run for it in this run and
  exited with status zero. A model whose cultural summary exists already, with
  force not set, is skipped: the scorer is not run and the summariser is not
  called. In a run that no failure ends, every model that is not skipped is scored
  and summarised.
\<close>

theorem summarize_follows_fresh_scoring:
  "(cached m \<and> \<not> force \<longrightarrow> cultural_step num force m = ([Skip (name m)], None)) \<and>
   ((\<exists>r. Summarize (name m) r \<in> set (fst (cultural_step num force m))) \<longleftrightarrow>
      (\<not> cached m \<or> force) \<and> scorer_ok m) \<and>
   (\<forall>n r. Summarize n r \<in> set (fst (cultural_metrics num skip_cultural force ms)) \<longrightarrow>
      \<not> skip_cultural \<and> (\<exists>m'\<in>set ms. name m' = n \<and> (\<not> cached m' \<or> force) \<and> scorer_ok m')) \<and>
   (\<not> skip_cultural \<and> snd (cultural_metrics num skip_cultural force ms) = None \<longrightarrow>
      (\<forall>m'\<in>set ms. \<not> cached m' \<or> force \<longrightarrow>
         Score (name m') \<in> set (fst (cultural_metrics num skip_cultural force ms)) \<and>
         (\<exists>r. Summarize (name m') r \<in> set (fst (cultural_metrics num skip_cultural force ms)))))"
proof (intro conjI)
  show "cached m \<and> \<not> force \<longrightarrow> cultural_step num force m = ([Skip (name m)], None)"
    by (simp add: cultural_step_def)
  show "(\<exists>r. Summarize (name m) r \<in> set (fst (cultural_step num force m))) \<longleftrightarrow>
      (\<not> cached m \<or> force) \<and> scorer_ok m"
    by (simp add: step_summarize)
  show "\<forall>n r. Summarize n r \<in> set (fst (cultural_metrics num skip_cultural force ms)) \<longrightarrow>
      \<not> skip_cultural \<and> (\<exists>m'\<in>set ms. name m' = n \<and> (\<not> cached m' \<or> force) \<and> scorer_ok m')"
  proof (intro allI impI)
    fix n r
    assume a: "Summarize n r \<in> set (fst (cultural_metrics num skip_cultural force ms))"
    then have ns: "\<not> skip_cultural"
      by (auto simp: cultural_metrics_def split: if_splits)
    with a have "Summarize n r \<in> set (fst (cultural_loop num force ms))"
      by (simp add: cultural_metrics_def)
    from loop_events [OF this] obtain m' where
      "m' \<in> set ms" "Summarize n r \<in> set (fst (cultural_step num force m'))" by blast
    with ns show "\<not> skip_cultural \<and>
        (\<exists>m'\<in>set ms. name m' = n \<and> (\<not> cached m' \<or> force) \<and> scorer_ok m')"
      by (auto simp: step_summarize)
  qed
  show "\<not> skip_cultural \<and> snd (cultural_metrics num skip_cultural force ms) = None \<longrightarrow>
      (\<forall>m'\<in>set ms. \<not> cached m' \<or> force \<longrightarrow>
         Score (name m') \<in> set (fst (cultural_metrics num skip_cultural force ms)) \<and>
         (\<exists>r. Summarize (name m') r \<in> set (fst (cultural_metrics num skip_cultural force ms))))"
  proof (intro impI ballI)
    fix m'
    assume a: "\<not> skip_cultural \<and> snd (cultural_metrics num skip_cultural force ms) = None"
      and m': "m' \<in> set ms" and fresh: "\<not> cached m' \<or> force"
    from a have eq: "cultural_metrics num skip_cultural force ms = cultural_loop num force ms"
      by (simp add: cultural_metrics_def)
    from a have ok: "snd (cultural_loop num force ms) = None"
      unfolding eq by simp
    note sub = loop_complete [OF ok m']
    have sc: "Score (name m') \<in> set (fst (cultural_step num force m'))"
      using fresh by (simp add: step_score)
    have run: "scorer_ok m'"
    proof (rule ccontr)
      assume "\<not> scorer_ok m'"
      with fresh have bad: "snd (cultural_step num force m') = Some CalledProcessError"
        by (auto simp: cultural_step_def)
      have "snd (cultural_loop num force ms) \<noteq> None" using m' bad
      proof (induction ms)
        case Nil
        then show ?case by simp
      next
        case (Cons x xs)
        obtain es f where s: "cultural_step num force x = (es, f)"
          by (cases "cultural_step num force x")
        obtain es' r where l: "cultural_loop num force xs = (es', r)"
          by (cases "cultural_loop num force xs")
        show ?case
        proof (cases f)
          case (Some b)
          with s show ?thesis by simp
        next
          case None
          with s Cons.prems have "m' \<in> set xs" by auto
          from Cons.IH [OF this Cons.prems(2)] l None s show ?thesis by simp
        qed
      qed
      with ok show False by simp
    qed
    have su: "Summarize (name m') (summarize_best_worst num (summary m'))
                \<in> set (fst (cultural_step num force m'))"
      using fresh run by (simp add: step_summarize)
    from sc su sub show "Score (name m') \<in> set (fst (cultural_metrics num skip_cultural force ms)) \<and>
         (\<exists>r. Summarize (name m') r \<in> set (fst (cultural_metrics num skip_cultural force ms)))"
      unfolding eq by blast
  qed
qed

theorem summarize_follows_fresh_scoring_witness:
  "cached cached_model \<and>
   cultural_step no_num False cached_model = ([Skip (name cached_model)], None) \<and>
   \<not> cached fresh_model \<and> scorer_ok fresh_model \<and>
   (\<exists>r. Summarize (name fresh_model) r \<in> set (fst (cultural_step no_num False fresh_model))) \<and>
   \<not> scorer_ok failing_model \<and>
   \<not> (\<exists>r. Summarize (name failing_model) r \<in> set (fst (cultural_step no_num False failing_model))) \<and>
   snd (cultural_metrics no_num False False [cached_model, fresh_model, empty_model]) = None \<and>
   (\<exists>r. Summarize (name empty_model) r
          \<in> set (fst (cultural_metrics no_num False False [cached_model, fresh_model, empty_model])))"
proof -
  note t = summarize_follows_fresh_scoring [of _ False no_num False]
  have c: "cached cached_model"
    by (simp add: cached_model_def)
  from t [of cached_model] c
  have 1: "cultural_step no_num False cached_model = ([Skip (name cached_model)], None)"
    by blast
  have f: "\<not> cached fresh_model" "scorer_ok fresh_model"
    by (simp_all add: fresh_model_def)
  from t [of fresh_model] f
  have 2: "\<exists>r. Summarize (name fresh_model) r \<in> set (fst (cultural_step no_num False fresh_model))"
    by blast
  have b: "\<not> scorer_ok failing_model"
    by (simp add: failing_model_def)
  from t [of failing_model] b
  have 3: "\<not> (\<exists>r. Summarize (name failing_model) r
                 \<in> set (fst (cultural_step no_num False failing_model)))"
    by blast
  let ?ms = "[cached_model, fresh_model, empty_model]"
  have ok: "snd (cultural_metrics no_num False False ?ms) = None"
    by (simp add: cultural_metrics_def cultural_step_def cached_model_def fresh_model_def
        empty_model_def summarize_best_worst_def empty_def no_group_src_def no_metrics_src_def)
  have e: "empty_model \<in> set ?ms" "\<not> cached empty_model"
    by (simp_all add: empty_model_def)
  from t [of cached_model ?ms] ok e
  have 4: "\<exists>r. Summarize (name empty_model) r \<in> set (fst (cultural_metrics no_num False False ?ms))"
    by blast
  from c 1 f 2 b 3 ok 4 show ?thesis by (intro conjI)
qed

text \<open>
  The claim as first worded fails: for a model whose cultural summary exists
  already, with force not set, the run records the skip and nothing else; the
  summariser is not called.
\<close>

theorem summarize_skipped_when_cached_counterexample:
  "cached cached_model \<and>
   cultural_metrics no_num False False [cached_model] = ([Skip ''m1''], None)"
  by (simp add: cultural_metrics_def cultural_step_def cached_model_def)

end
